theory Spec2Isabelle
  imports Main "HOL-Library.Word" "HOL-Library.Signed_Division"
begin

unbundle bit_operations_syntax

section \<open>Data model of the queue engine\<close>

text \<open>
  The embedding follows \<^verbatim>\<open>pool.go\<close> (type \<^verbatim>\<open>Pool\<close>, routing, construction,
  lifecycle, admission) and the worker file (type \<^verbatim>\<open>Worker\<close>, the processing loop
  \<^verbatim>\<open>start\<close> and the recovery wrapper \<^verbatim>\<open>safeExecute\<close>).

  Go's \<^verbatim>\<open>int\<close> is taken to be 64 bits wide (the amd64 and arm64 targets): a
  \<^verbatim>\<open>uint32\<close> converts to a non-negative \<^verbatim>\<open>int\<close>, and \<^verbatim>\<open>int64\<close> converts to
  \<^verbatim>\<open>int\<close> unchanged. The round-robin counter is an \<^verbatim>\<open>int64\<close> and is a
  \<open>64 word\<close> here, read with \<open>sint\<close>; Go's \<^verbatim>\<open>%\<close> truncates towards zero and is
  \<open>smod\<close> on \<open>int\<close>.

  What lies outside the two files is kept at its interface. A unit of work is a function
  from the context it is given to its result: it returns or it panics. A fault handler is
  a callback of the same kind: given the task, the panic value and the stack trace, it
  returns or it panics. A logger is the function that tells of each call made to it whether
  the call returns or panics (its levels and its output are not modelled); the calls that
  returned are listed in the environment. A worker may be without a logger, after
  \<^verbatim>\<open>SetLogger(nil)\<close>, and a call on the logger is then a nil dereference. The clock,
  the firing of cancellation handles and the stack trace of the runtime belong to the
  environment. The wiring of operating-system signals in \<^verbatim>\<open>Start\<close>, the logger of the
  pool itself (used by that wiring only) and the log level are left out.
\<close>

type_synonym time = int
  \<comment> \<open>an instant of \<^verbatim>\<open>time.Time\<close>; \<open>0\<close> is the zero instant that \<^verbatim>\<open>IsZero\<close> recognises\<close>

type_synonym addr = nat
  \<comment> \<open>the identity of a Go map: maps are reference values\<close>

datatype val = VBool bool | VInt int | VStr string | VTime time
  \<comment> \<open>the \<^verbatim>\<open>interface{}\<close> values that the engine itself stores, and scalars of the caller\<close>

datatype panic =
    DivideByZero | IndexOutOfRange | SendOnClosedChannel | CloseOfClosedChannel
  | NilDereference | Raised val
  \<comment> \<open>run-time panics of the Go operations used by the pool, and a panic that code called
      by the engine raises with a value\<close>

datatype error = ErrQueueNotRunning | ErrQueueItemExpired | ErrQueueItemCancelled | ErrInvalidWorkerID

datatype ('a, 'b) outcome = Ok 'a | Err 'b | Panics panic | Blocks
  \<comment> \<open>how a call ends: a value, a returned error, a panic, or the caller stays suspended\<close>

record Context =
  cancel :: "nat option"
  vals :: "string \<rightharpoonup> val"
  \<comment> \<open>a \<^verbatim>\<open>context.Context\<close>: the cancellation source it descends from (none for
      \<^verbatim>\<open>context.Background()\<close>) and the values attached with \<^verbatim>\<open>context.WithValue\<close>\<close>

definition Background :: Context where
  "Background = \<lparr>cancel = None, vals = Map.empty\<rparr>"

datatype work_result = Returned | Panicked val
  \<comment> \<open>the unit of work either returns or raises a panic with a value\<close>

type_synonym work = "Context option \<Rightarrow> work_result"

record QueueItem =
  key :: string
  fn :: "work option"
  ctx :: "Context option"
  metadata :: "addr option"
  enqueueTime :: time
  expireTime :: time

definition zero_item :: QueueItem where
  "zero_item = \<lparr>key = [], fn = None, ctx = None, metadata = None, enqueueTime = 0, expireTime = 0\<rparr>"

record 'a chan =
  buf :: "'a list"
  cap :: nat
  closed :: bool

definition make_chan :: "nat \<Rightarrow> 'a chan" where
  "make_chan n = \<lparr>buf = [], cap = n, closed = False\<rparr>"

type_synonym Strategy = int

definition KeyBased :: Strategy where
  "KeyBased = 0"

definition RoundRobin :: Strategy where
  "RoundRobin = 1"

datatype log_entry =
    InvalidStrategy Strategy
  | SkippingExpired int string time
  | SkippingCancelled int string
  | ExecutingTask int string
  | PanicRecoveredFor int string val
  | StackTraceFor int string string
  | PanicRecovered int string "val option"
  | Completed int string time
  | CancelledDuringExecution int string
  | DrainingQueue int
  | ShutdownComplete int

type_synonym PanicHandler = "QueueItem \<Rightarrow> val \<Rightarrow> string \<Rightarrow> work_result"
  \<comment> \<open>a handler is a callback: called with the task, the panic value and the stack trace,
      it returns or it panics\<close>

type_synonym Logger = "log_entry \<Rightarrow> work_result"
  \<comment> \<open>a logger, by what a call of one of its methods does: it returns or it panics\<close>

record Worker =
  id_w :: int
  queue :: "QueueItem chan"
  stopSignal :: "unit chan"
  panicHandler :: "PanicHandler option"
  logger :: "Logger option"
  \<comment> \<open>\<open>None\<close> is Go's \<^verbatim>\<open>nil\<close>, for the handler and for the logger\<close>

record Pool =
  strategy :: Strategy
  roundRobinIndex :: "64 word"
  workers :: "Worker list"
  size_p :: int
  wg :: nat
  mutex :: bool
  isRunning :: bool

datatype event =
    Invoked int QueueItem
  | Handled PanicHandler int string val string

record env =
  now :: time
  fired :: "nat set"
  stack :: string
  heap :: "addr \<rightharpoonup> (string \<rightharpoonup> val)"
  nextAddr :: addr
  logs :: "log_entry list"
  events :: "event list"
  \<comment> \<open>what the engine reads from and writes to outside the pool: the clock, the
      cancellation sources that have fired, the text \<^verbatim>\<open>debug.Stack()\<close> returns, the
      maps in memory, the calls of the logger that returned, and the calls made to units
      of work and fault handlers\<close>

record lib =
  Sum32 :: "string \<Rightarrow> 32 word"
  Sprintf_v :: "val \<Rightarrow> string"
  \<comment> \<open>library functions the engine calls: \<^verbatim>\<open>murmur3.Sum32\<close> and \<^verbatim>\<open>fmt.Sprintf("%v", _)\<close>\<close>

subsection \<open>The library functions as the Go runtime provides them\<close>

text \<open>
  \<^verbatim>\<open>murmur3.Sum32\<close> is the 32-bit MurmurHash3 with seed 0 over the bytes of the key.
  The engine's definitions take the library as a parameter \<open>L\<close>; \<open>go_lib\<close> below is
  the instance used when a definition is run on concrete input.
\<close>

definition rotl32 :: "32 word \<Rightarrow> nat \<Rightarrow> 32 word" where
  "rotl32 x r = push_bit r x OR drop_bit (32 - r) x"

definition mix_k :: "32 word \<Rightarrow> 32 word" where
  "mix_k k = rotl32 (k * 0xcc9e2d51) 15 * 0x1b873593"

definition byte_of :: "char \<Rightarrow> 32 word" where
  "byte_of c = of_nat (of_char c)"

fun m3_body :: "32 word \<Rightarrow> char list \<Rightarrow> 32 word" where
  "m3_body h (a # b # c # d # rest) =
     m3_body (rotl32 (h XOR mix_k (byte_of a OR push_bit 8 (byte_of b) OR
                push_bit 16 (byte_of c) OR push_bit 24 (byte_of d))) 13 * 5 + 0xe6546b64) rest"
| "m3_body h [a, b, c] =
     h XOR mix_k (byte_of a XOR push_bit 8 (byte_of b) XOR push_bit 16 (byte_of c))"
| "m3_body h [a, b] = h XOR mix_k (byte_of a XOR push_bit 8 (byte_of b))"
| "m3_body h [a] = h XOR mix_k (byte_of a)"
| "m3_body h [] = h"

definition fmix32 :: "32 word \<Rightarrow> 32 word" where
  "fmix32 h0 =
     (let h1 = (h0 XOR drop_bit 16 h0) * 0x85ebca6b;
          h2 = (h1 XOR drop_bit 13 h1) * 0xc2b2ae35
      in h2 XOR drop_bit 16 h2)"

definition murmur3_Sum32 :: "string \<Rightarrow> 32 word" where
  "murmur3_Sum32 s = fmix32 (m3_body 0 s XOR of_nat (length s))"

fun show_nat :: "nat \<Rightarrow> string" where
  "show_nat n =
     (if n < 10 then [char_of (48 + n)] else show_nat (n div 10) @ [char_of (48 + n mod 10)])"

definition show_int :: "int \<Rightarrow> string" where
  "show_int i = (if i < 0 then CHR ''-'' # show_nat (nat (- i)) else show_nat (nat i))"

fun show_val :: "val \<Rightarrow> string" where
  "show_val (VStr s) = s"
| "show_val (VBool b) = (if b then ''true'' else ''false'')"
| "show_val (VInt i) = show_int i"
| "show_val (VTime t) = show_int t"
  \<comment> \<open>the printed layout of a time value is not modelled: the instant's count stands for it\<close>

definition go_lib :: lib where
  "go_lib = \<lparr>Sum32 = murmur3_Sum32, Sprintf_v = show_val\<rparr>"

section \<open>Routing\<close>

definition go_rem :: "int \<Rightarrow> int \<Rightarrow> panic + int" where
  "go_rem a b = (if b = 0 then Inl DivideByZero else Inr (a smod b))"

definition to :: "lib \<Rightarrow> Pool \<Rightarrow> string \<Rightarrow> (panic + int) \<times> Pool" where
  "to L p k =
     (if strategy p = RoundRobin then
        (let index = roundRobinIndex p + 1
         in (go_rem (sint (index - 1)) (size_p p), p\<lparr>roundRobinIndex := index\<rparr>))
      else (go_rem (uint (Sum32 L k)) (size_p p), p))"

text \<open>A run of routing calls made one after the other, each on the pool the previous one left.\<close>

fun route_seq :: "lib \<Rightarrow> Pool \<Rightarrow> string list \<Rightarrow> (panic + int) list \<times> Pool" where
  "route_seq L p [] = ([], p)"
| "route_seq L p (k # ks) =
     (let (r, p1) = to L p k; (rs, p2) = route_seq L p1 ks in (r # rs, p2))"

section \<open>Construction\<close>

text \<open>
  Modelled from the spec: \<^verbatim>\<open>DefaultPanicHandler\<close> is declared in another file of the
  package. Section 6: ``a safe default (log-only) must exist''; section 4.2 calls it ``a
  default no-op-safe handler''. It returns, whatever it is given.
\<close>

definition DefaultPanicHandler :: PanicHandler where
  "DefaultPanicHandler = (\<lambda>item r stackTrace. Returned)"

text \<open>
  Modelled from the spec: \<^verbatim>\<open>NewDefaultLogger\<close> is declared in another file of the
  package. Section 6: ``A no-op/default implementation must exist so the core runs without
  configuration''. Its calls return.
\<close>

definition NewDefaultLogger :: Logger where
  "NewDefaultLogger = (\<lambda>l. Returned)"

definition new_worker :: "nat \<Rightarrow> int \<Rightarrow> Worker" where
  "new_worker bufferSize i =
     \<lparr>id_w = i, queue = make_chan bufferSize, stopSignal = make_chan 0,
      panicHandler = Some DefaultPanicHandler, logger = Some NewDefaultLogger\<rparr>"

definition NewPool :: "int \<Rightarrow> int \<Rightarrow> Strategy \<Rightarrow> Pool \<times> log_entry list" where
  "NewPool poolSize bufferSize s =
     (let invalid = (s \<noteq> KeyBased \<and> s \<noteq> RoundRobin);
          s1 = (if invalid then KeyBased else s);
          poolSize1 = (if poolSize \<le> 0 then 1 else poolSize);
          bufferSize1 = (if bufferSize \<le> 0 then 100 else bufferSize)
      in (\<lparr>strategy = s1, roundRobinIndex = 0,
           workers = map (new_worker (nat bufferSize1)) [0..poolSize1 - 1],
           size_p = poolSize1, wg = 0, mutex = False, isRunning = False\<rparr>,
          if invalid then [InvalidStrategy s] else []))"

text \<open>
  \<^verbatim>\<open>SetPanicHandler\<close> and \<^verbatim>\<open>SetLogger\<close> give every worker the handler or the logger
  they are called with, which may be \<^verbatim>\<open>nil\<close> (lines 132 to 139 and 169 to 179).
\<close>

definition SetPanicHandler :: "PanicHandler option \<Rightarrow> Pool \<Rightarrow> Pool" where
  "SetPanicHandler handler p = p\<lparr>workers := map (\<lambda>w. w\<lparr>panicHandler := handler\<rparr>) (workers p)\<rparr>"

definition SetLogger :: "Logger option \<Rightarrow> Pool \<Rightarrow> Pool" where
  "SetLogger lg p = p\<lparr>workers := map (\<lambda>w. w\<lparr>logger := lg\<rparr>) (workers p)\<rparr>"

section \<open>Memory, logging and the task helpers\<close>

definition logf :: "log_entry \<Rightarrow> env \<Rightarrow> env" where
  "logf l e = e\<lparr>logs := logs e @ [l]\<rparr>"

text \<open>
  A call of a method of the worker's logger, \<^verbatim>\<open>w.logger.Debugf(...)\<close> and the like:
  on a \<^verbatim>\<open>nil\<close> logger it panics, and else it does what the logger does.
\<close>

definition log_call :: "Worker \<Rightarrow> log_entry \<Rightarrow> env \<Rightarrow> panic option \<times> env" where
  "log_call w l e =
     (case logger w of
        None \<Rightarrow> (Some NilDereference, e)
      | Some lg \<Rightarrow>
          (case lg l of
             Returned \<Rightarrow> (None, logf l e)
           | Panicked v \<Rightarrow> (Some (Raised v), e)))"

text \<open>The value \<^verbatim>\<open>recover()\<close> returns for a panic.\<close>

fun panic_value :: "panic \<Rightarrow> val" where
  "panic_value (Raised v) = v"
| "panic_value NilDereference =
     VStr ''runtime error: invalid memory address or nil pointer dereference''"
| "panic_value DivideByZero = VStr ''runtime error: integer divide by zero''"
| "panic_value IndexOutOfRange = VStr ''runtime error: index out of range''"
| "panic_value SendOnClosedChannel = VStr ''send on closed channel''"
| "panic_value CloseOfClosedChannel = VStr ''close of closed channel''"

definition emit :: "event \<Rightarrow> env \<Rightarrow> env" where
  "emit x e = e\<lparr>events := events e @ [x]\<rparr>"

definition deref :: "env \<Rightarrow> addr \<Rightarrow> (string \<rightharpoonup> val)" where
  "deref e a = (case heap e a of Some m \<Rightarrow> m | None \<Rightarrow> Map.empty)"

definition make_map :: "(string \<rightharpoonup> val) \<Rightarrow> env \<Rightarrow> addr \<times> env" where
  "make_map m e =
     (nextAddr e, e\<lparr>heap := (heap e)(nextAddr e \<mapsto> m), nextAddr := Suc (nextAddr e)\<rparr>)"

definition store :: "addr \<Rightarrow> string \<Rightarrow> val \<Rightarrow> env \<Rightarrow> env" where
  "store a k v e = e\<lparr>heap := (heap e)(a \<mapsto> (deref e a)(k \<mapsto> v))\<rparr>"

definition Done :: "Context \<Rightarrow> env \<Rightarrow> bool" where
  "Done c e = (case cancel c of None \<Rightarrow> False | Some i \<Rightarrow> i \<in> fired e)"

text \<open>
  Modelled from the spec: \<^verbatim>\<open>QueueItem.IsExpired\<close> is declared in another file of
  the package. Section 3: ``if set and now \<open>\<ge>\<close> expireAt at the moment of dequeue, the task is
  discarded unexecuted''.
\<close>

definition IsExpired :: "QueueItem \<Rightarrow> env \<Rightarrow> bool" where
  "IsExpired item e = (expireTime item \<noteq> 0 \<and> expireTime item \<le> now e)"

text \<open>
  Modelled from the spec: \<^verbatim>\<open>QueueItem.IsCancelled\<close> is declared in another file of
  the package. Section 4.2: the task is discarded ``if cancellation is already triggered''; a
  task without a cancellation handle is never cancelled.
\<close>

definition IsCancelled :: "QueueItem \<Rightarrow> env \<Rightarrow> bool" where
  "IsCancelled item e = (case ctx item of None \<Rightarrow> False | Some c \<Rightarrow> Done c e)"

text \<open>
  Modelled from the spec: \<^verbatim>\<open>QueueItem.GetAge\<close> is declared in another file of the package.
  Section 3: ``enqueuedAt: set at admission, used for age diagnostics''.
\<close>

definition GetAge :: "QueueItem \<Rightarrow> env \<Rightarrow> time" where
  "GetAge item e = now e - enqueueTime item"

section \<open>Execution with recovery\<close>

definition MetadataKey :: "string \<Rightarrow> string" where
  "MetadataKey k = ''metadata:'' @ k"

text \<open>
  The loop \<^verbatim>\<open>for k, v := range item.metadata\<close> wraps the context once per entry; the
  keys of a map are distinct, so the order of the wrapping does not show in the result.
\<close>

definition with_metadata :: "Context \<Rightarrow> (string \<rightharpoonup> val) \<Rightarrow> Context" where
  "with_metadata c md =
     c\<lparr>vals := (\<lambda>ck. if take 9 ck = ''metadata:'' \<and> md (drop 9 ck) \<noteq> None
                     then md (drop 9 ck) else vals c ck)\<rparr>"

text \<open>\<^verbatim>\<open>GetMetadata\<close>: what a unit of work reads back from its context (lines 19 to 22).\<close>

definition GetMetadata :: "Context \<Rightarrow> string \<Rightarrow> val option" where
  "GetMetadata c k = vals c (MetadataKey k)"

definition call :: "work option \<Rightarrow> Context option \<Rightarrow> work_result" where
  "call f c =
     (case f of
        None \<Rightarrow> Panicked (VStr ''runtime error: invalid memory address or nil pointer dereference'')
      | Some g \<Rightarrow> g c)"

text \<open>Lines 164 to 168: the metadata of the item is attached to its context, if it has both.\<close>

definition project :: "QueueItem \<Rightarrow> env \<Rightarrow> QueueItem" where
  "project item e =
     (case ctx item of
        None \<Rightarrow> item
      | Some c \<Rightarrow>
          (case metadata item of
             None \<Rightarrow> item
           | Some a \<Rightarrow> item\<lparr>ctx := Some (with_metadata c (deref e a))\<rparr>))"

text \<open>
  The deferred function of \<^verbatim>\<open>safeExecute\<close> when \<^verbatim>\<open>recover()\<close> has returned \<open>r\<close>
  (lines 131 to 158). It runs after the recovery, so nothing recovers a panic of its own:
  when the logger panics at line 140, or at line 142, where it is called without the test
  of line 139, or when the handler panics at line 145 or 147, \<^verbatim>\<open>safeExecute\<close> does not
  return.
\<close>

definition recovered_with ::
  "lib \<Rightarrow> Worker \<Rightarrow> QueueItem \<Rightarrow> val \<Rightarrow> env \<Rightarrow> (panic + (bool \<times> val option)) \<times> QueueItem \<times> env" where
  "recovered_with L w item r e =
     (let stackTrace = stack e;
          (x1, e1) = (if logger w \<noteq> None
                      then log_call w (PanicRecoveredFor (id_w w) (key item) r) e
                      else (None, e))
      in case x1 of
           Some x \<Rightarrow> (Inl x, item, e1)
         | None \<Rightarrow>
             (case log_call w (StackTraceFor (id_w w) (key item) stackTrace) e1 of
                (Some x, e2) \<Rightarrow> (Inl x, item, e2)
              | (None, e2) \<Rightarrow>
                  (let h = (case panicHandler w of Some h \<Rightarrow> h | None \<Rightarrow> DefaultPanicHandler);
                       e3 = emit (Handled h (id_w w) (key item) r stackTrace) e2
                   in case h item r stackTrace of
                        Panicked v \<Rightarrow> (Inl (Raised v), item, e3)
                      | Returned \<Rightarrow>
                          (let (a, e4) = (case metadata item of
                                            None \<Rightarrow> make_map Map.empty e3
                                          | Some a \<Rightarrow> (a, e3));
                               e5 = store a ''panic_recovered'' (VBool True) e4;
                               e6 = store a ''panic_value'' (VStr (Sprintf_v L r)) e5;
                               e7 = store a ''panic_time'' (VTime (now e6)) e6;
                               e8 = store a ''worker_id'' (VInt (id_w w)) e7;
                               e9 = store a ''stack_trace'' (VStr stackTrace) e8
                           in (Inr (True, Some r), item\<lparr>metadata := Some a\<rparr>, e9)))))"

text \<open>
  \<^verbatim>\<open>safeExecute\<close> (lines 129 to 172). The result is \<open>Inr\<close> of the pair it returns, or
  \<open>Inl\<close> of the panic that leaves it; the item and the environment are as the call
  left them in both cases. A panic of the logger at line 162 is recovered like one of the
  unit of work.
\<close>

definition safeExecute ::
  "lib \<Rightarrow> Worker \<Rightarrow> QueueItem \<Rightarrow> env \<Rightarrow> (panic + (bool \<times> val option)) \<times> QueueItem \<times> env" where
  "safeExecute L w item e =
     (case log_call w (ExecutingTask (id_w w) (key item)) e of
        (Some x, e1) \<Rightarrow> recovered_with L w item (panic_value x) e1
      | (None, e1) \<Rightarrow>
          (let item1 = project item e1;
               e2 = emit (Invoked (id_w w) item1) e1
           in case call (fn item1) (ctx item1) of
                Returned \<Rightarrow> (Inr (False, None), item1, e2)
              | Panicked r \<Rightarrow> recovered_with L w item1 r e2))"

section \<open>The worker's handling of one dequeued task\<close>

datatype dequeued = Continue env | Spawn QueueItem env | Crash panic env
  \<comment> \<open>the loop goes on to its next \<^verbatim>\<open>select\<close>, or it has started a goroutine for the
      task and waits for its end or for the cancellation, or a panic has left it\<close>

text \<open>After a call that may panic the loop goes on, or the panic leaves it.\<close>

definition goes_on :: "panic option \<times> env \<Rightarrow> dequeued" where
  "goes_on r = (case r of (None, e) \<Rightarrow> Continue e | (Some x, e) \<Rightarrow> Crash x e)"

text \<open>The line logged for a task that has run (lines 76 to 82, 92 to 98 and 111 to 117).\<close>

definition report ::
  "Worker \<Rightarrow> QueueItem \<Rightarrow> bool \<times> val option \<Rightarrow> env \<Rightarrow> panic option \<times> env" where
  "report w item r e =
     (if fst r then log_call w (PanicRecovered (id_w w) (key item) (snd r)) e
      else log_call w (Completed (id_w w) (key item) (GetAge item e)) e)"

text \<open>
  \<^verbatim>\<open>safeExecute\<close> and the line logged after it (lines 91 to 98 and 110 to 117); a panic
  that leaves \<^verbatim>\<open>safeExecute\<close> leaves the loop of the worker as well.
\<close>

definition run_and_report ::
  "lib \<Rightarrow> Worker \<Rightarrow> QueueItem \<Rightarrow> env \<Rightarrow> panic option \<times> env" where
  "run_and_report L w item e =
     (case safeExecute L w item e of
        (Inl x, item1, e1) \<Rightarrow> (Some x, e1)
      | (Inr r, item1, e1) \<Rightarrow> report w item1 r e1)"

definition dequeue_steady :: "lib \<Rightarrow> Worker \<Rightarrow> QueueItem \<Rightarrow> env \<Rightarrow> dequeued" where
  "dequeue_steady L w item e =
     (if IsExpired item e then
        goes_on (log_call w (SkippingExpired (id_w w) (key item) (GetAge item e)) e)
      else if IsCancelled item e then
        goes_on (log_call w (SkippingCancelled (id_w w) (key item)) e)
      else if fn item = None then Continue e
      else if ctx item \<noteq> None then Spawn item e
      else goes_on (run_and_report L w (item\<lparr>ctx := Some Background\<rparr>) e))"

definition cancelled_during :: "Worker \<Rightarrow> QueueItem \<Rightarrow> env \<Rightarrow> panic option \<times> env" where
  "cancelled_during w item e = log_call w (CancelledDuringExecution (id_w w) (key item)) e"

definition dequeue_drain :: "lib \<Rightarrow> Worker \<Rightarrow> QueueItem \<Rightarrow> env \<Rightarrow> panic option \<times> env" where
  "dequeue_drain L w item e =
     (if \<not> IsExpired item e \<and> \<not> IsCancelled item e \<and> fn item \<noteq> None then
        run_and_report L w item e
      else (None, e))"

section \<open>Admission\<close>

record EnqueueOptions =
  opt_expireTime :: time
  itemCtx :: "Context option"
  opt_metadata :: "addr option"
  \<comment> \<open>the value \<^verbatim>\<open>applyEnqueueOptions\<close> returns; the options builder is in another
      file of the package and \<^verbatim>\<open>Enqueue\<close> is embedded from that value on\<close>

definition send :: "'a \<Rightarrow> 'a chan \<Rightarrow> ('a chan, error) outcome" where
  "send x c =
     (if closed c then Panics SendOnClosedChannel
      else if length (buf c) < cap c then Ok (c\<lparr>buf := buf c @ [x]\<rparr>)
      else Blocks)"

text \<open>Lines 245 to 286 of \<^verbatim>\<open>Enqueue\<close>: from the value of the running flag to the item.\<close>

definition admit ::
  "lib \<Rightarrow> string \<Rightarrow> work option \<Rightarrow> EnqueueOptions \<Rightarrow> Pool \<Rightarrow> env \<Rightarrow>
     (int \<times> QueueItem, error) outcome \<times> Pool \<times> env" where
  "admit L k f options p e =
     (if \<not> isRunning p then (Err ErrQueueNotRunning, p, e)
      else if opt_expireTime options \<noteq> 0 \<and> opt_expireTime options < now e then
        (Err ErrQueueItemExpired, p, e)
      else if (case itemCtx options of None \<Rightarrow> False | Some c \<Rightarrow> Done c e) then
        (Err ErrQueueItemCancelled, p, e)
      else
        (case to L p k of
           (Inl x, p1) \<Rightarrow> (Panics x, p1, e)
         | (Inr workerIndex, p1) \<Rightarrow>
             (let (itemMetadata, e1) =
                    (case opt_metadata options of
                       None \<Rightarrow> (None, e)
                     | Some a \<Rightarrow> (let (a1, e1) = make_map (deref e a) e in (Some a1, e1)));
                  item = \<lparr>key = k, fn = f, ctx = itemCtx options, metadata = itemMetadata,
                          enqueueTime = now e1, expireTime = opt_expireTime options\<rparr>
              in (Ok (workerIndex, item), p1, e1))))"

text \<open>Line 288 of \<^verbatim>\<open>Enqueue\<close>: the send into the buffer of the chosen worker.\<close>

definition deliver :: "int \<Rightarrow> QueueItem \<Rightarrow> Pool \<Rightarrow> (int, error) outcome \<times> Pool" where
  "deliver workerIndex item p =
     (if workerIndex < 0 \<or> int (length (workers p)) \<le> workerIndex then
        (Panics IndexOutOfRange, p)
      else
        (let i = nat workerIndex; w = workers p ! i
         in case send item (queue w) of
              Ok q \<Rightarrow> (Ok workerIndex, p\<lparr>workers := (workers p)[i := w\<lparr>queue := q\<rparr>]\<rparr>)
            | Err x \<Rightarrow> (Err x, p)
            | Panics x \<Rightarrow> (Panics x, p)
            | Blocks \<Rightarrow> (Blocks, p)))"

definition Enqueue ::
  "lib \<Rightarrow> string \<Rightarrow> work option \<Rightarrow> EnqueueOptions \<Rightarrow> Pool \<Rightarrow> env \<Rightarrow>
     (int, error) outcome \<times> Pool \<times> env" where
  "Enqueue L k f options p e =
     (case admit L k f options p e of
        (Ok (workerIndex, item), p1, e1) \<Rightarrow>
          (let (r, p2) = deliver workerIndex item p1 in (r, p2, e1))
      | (Err x, p1, e1) \<Rightarrow> (Err x, p1, e1)
      | (Panics x, p1, e1) \<Rightarrow> (Panics x, p1, e1)
      | (Blocks, p1, e1) \<Rightarrow> (Blocks, p1, e1))"

definition GetQueueLength :: "Pool \<Rightarrow> int \<Rightarrow> (nat, error) outcome" where
  "GetQueueLength p i =
     (if i < 0 \<or> size_p p \<le> i then Err ErrInvalidWorkerID
      else if int (length (workers p)) \<le> i then Panics IndexOutOfRange
      else Ok (length (buf (queue (workers p ! nat i)))))"

section \<open>Lifecycle and the interleaving of the goroutines\<close>

text \<open>
  The pool is used from many goroutines. Their interleaving is a machine whose steps are
  the stretches of code between two synchronisation points (a mutex operation, a channel
  operation, a \<^verbatim>\<open>select\<close>, a \<^verbatim>\<open>WaitGroup\<close> operation); a schedule is the list
  of steps in the order they happen. A step is not enabled (\<open>None\<close>) where the goroutine
  that would take it is suspended. In every pool that \<^verbatim>\<open>NewPool\<close> builds,
  \<^verbatim>\<open>p.size\<close> is the length of \<^verbatim>\<open>p.workers\<close>, and the loops over \<^verbatim>\<open>p.size\<close> are
  loops over the workers.
\<close>

datatype phase = NotStarted | Idle | Waiting nat | Draining | Stopped
  \<comment> \<open>where the goroutine of \<^verbatim>\<open>Worker.start\<close> stands: at the outer \<^verbatim>\<open>select\<close>, at the
      inner \<^verbatim>\<open>select\<close> for the task goroutine of that number, in the drain loop, returned\<close>

record task =
  t_worker :: nat
  t_item :: QueueItem
  t_result :: "(bool \<times> val option) option"
  \<comment> \<open>the goroutine of lines 69 to 72; the result is there once \<^verbatim>\<open>done\<close> is closed\<close>

record sys =
  pool :: Pool
  world :: env
  loops :: "phase list"
  tasks :: "task list"
  callers :: "(int \<times> QueueItem) option list"
  returned :: "(int, error) outcome list"
  stopping :: bool
  crashed :: "panic list"
  \<comment> \<open>\<open>callers\<close>: the \<^verbatim>\<open>Enqueue\<close> calls that stand before their send; \<open>returned\<close>: what
      the finished calls returned; \<open>stopping\<close>: a \<^verbatim>\<open>Stop\<close> call stands in \<^verbatim>\<open>wg.Wait\<close>;
      \<open>crashed\<close>: the panic that ended the process, if any\<close>

definition boot :: "Pool \<Rightarrow> env \<Rightarrow> sys" where
  "boot p e =
     \<lparr>pool = p, world = e, loops = map (\<lambda>w. NotStarted) (workers p), tasks = [],
      callers = [], returned = [], stopping = False, crashed = []\<rparr>"

definition close_chan :: "'a chan \<Rightarrow> panic + 'a chan" where
  "close_chan c = (if closed c then Inl CloseOfClosedChannel else Inr (c\<lparr>closed := True\<rparr>))"

fun close_stopSignals :: "Worker list \<Rightarrow> panic + Worker list" where
  "close_stopSignals [] = Inr []"
| "close_stopSignals (w # ws) =
     (case close_chan (stopSignal w) of
        Inl x \<Rightarrow> Inl x
      | Inr c \<Rightarrow>
          (case close_stopSignals ws of
             Inl x \<Rightarrow> Inl x
           | Inr ws1 \<Rightarrow> Inr (w\<lparr>stopSignal := c\<rparr> # ws1)))"

fun close_queues :: "Worker list \<Rightarrow> panic + Worker list" where
  "close_queues [] = Inr []"
| "close_queues (w # ws) =
     (case close_chan (queue w) of
        Inl x \<Rightarrow> Inl x
      | Inr c \<Rightarrow>
          (case close_queues ws of
             Inl x \<Rightarrow> Inl x
           | Inr ws1 \<Rightarrow> Inr (w\<lparr>queue := c\<rparr> # ws1)))"

text \<open>\<^verbatim>\<open>Start\<close>, with the mutex held from its first to its last line.\<close>

definition Start :: "sys \<Rightarrow> sys" where
  "Start s =
     (let p = pool s
      in if isRunning p then s
         else s\<lparr>pool := p\<lparr>isRunning := True, wg := wg p + length (workers p)\<rparr>,
                loops := map (\<lambda>w. Idle) (workers p)\<rparr>)"

text \<open>\<^verbatim>\<open>Stop\<close> up to \<^verbatim>\<open>wg.Wait\<close> (lines 213 to 226); the mutex stays held.\<close>

definition Stop_begin :: "sys \<Rightarrow> sys" where
  "Stop_begin s =
     (let p = pool s
      in if \<not> isRunning p then s
         else (case close_stopSignals (workers p) of
                 Inl x \<Rightarrow> s\<lparr>pool := p\<lparr>isRunning := False\<rparr>, crashed := crashed s @ [x]\<rparr>
               | Inr ws \<Rightarrow>
                   s\<lparr>pool := p\<lparr>isRunning := False, workers := ws, mutex := True\<rparr>,
                     stopping := True\<rparr>))"

text \<open>\<^verbatim>\<open>Stop\<close> from the return of \<^verbatim>\<open>wg.Wait\<close> on (lines 231 to 235).\<close>

definition Stop_end :: "sys \<Rightarrow> sys" where
  "Stop_end s =
     (let p = pool s
      in case close_queues (workers p) of
           Inl x \<Rightarrow> s\<lparr>crashed := crashed s @ [x]\<rparr>
         | Inr ws \<Rightarrow> s\<lparr>pool := p\<lparr>workers := ws, mutex := False\<rparr>, stopping := False\<rparr>)"

definition Enqueue_begin :: "lib \<Rightarrow> string \<Rightarrow> work option \<Rightarrow> EnqueueOptions \<Rightarrow> sys \<Rightarrow> sys" where
  "Enqueue_begin L k f options s =
     (case admit L k f options (pool s) (world s) of
        (Ok c, p1, e1) \<Rightarrow> s\<lparr>pool := p1, world := e1, callers := callers s @ [Some c]\<rparr>
      | (Err x, p1, e1) \<Rightarrow> s\<lparr>pool := p1, world := e1, returned := returned s @ [Err x]\<rparr>
      | (Panics x, p1, e1) \<Rightarrow> s\<lparr>pool := p1, world := e1, crashed := crashed s @ [x]\<rparr>
      | (Blocks, p1, e1) \<Rightarrow> s)"

definition Enqueue_send :: "nat \<Rightarrow> sys \<Rightarrow> sys option" where
  "Enqueue_send n s =
     (if n < length (callers s) then
        (case callers s ! n of
           None \<Rightarrow> None
         | Some (workerIndex, item) \<Rightarrow>
             (case deliver workerIndex item (pool s) of
                (Ok i, p1) \<Rightarrow>
                  Some (s\<lparr>pool := p1, callers := (callers s)[n := None],
                          returned := returned s @ [Ok i]\<rparr>)
              | (Err x, p1) \<Rightarrow>
                  Some (s\<lparr>callers := (callers s)[n := None], returned := returned s @ [Err x]\<rparr>)
              | (Panics x, p1) \<Rightarrow> Some (s\<lparr>crashed := crashed s @ [x]\<rparr>)
              | (Blocks, p1) \<Rightarrow> None))
      else None)"

definition recv :: "QueueItem chan \<Rightarrow> (QueueItem \<times> QueueItem chan) option" where
  "recv c =
     (case buf c of
        x # xs \<Rightarrow> Some (x, c\<lparr>buf := xs\<rparr>)
      | [] \<Rightarrow> if closed c then Some (zero_item, c) else None)"

definition set_queue :: "nat \<Rightarrow> QueueItem chan \<Rightarrow> sys \<Rightarrow> sys" where
  "set_queue i q s =
     s\<lparr>pool := (pool s)\<lparr>workers := (workers (pool s))[i := (workers (pool s) ! i)\<lparr>queue := q\<rparr>]\<rparr>\<rparr>"

definition live :: "nat \<Rightarrow> sys \<Rightarrow> bool" where
  "live i s = (i < length (loops s) \<and> i < length (workers (pool s)))"

text \<open>
  The outer \<^verbatim>\<open>select\<close> takes the case of the queue (lines 47 to 100). A panic that
  leaves the goroutine of a worker or of a task ends the process.
\<close>

definition worker_receive :: "lib \<Rightarrow> nat \<Rightarrow> sys \<Rightarrow> sys option" where
  "worker_receive L i s =
     (if live i s \<and> loops s ! i = Idle then
        (let w = workers (pool s) ! i
         in case recv (queue w) of
              None \<Rightarrow> None
            | Some (item, q) \<Rightarrow>
                (case dequeue_steady L w item (world s) of
                   Continue e \<Rightarrow> Some ((set_queue i q s)\<lparr>world := e\<rparr>)
                 | Spawn item1 e \<Rightarrow>
                     Some ((set_queue i q s)
                       \<lparr>world := e,
                        loops := (loops s)[i := Waiting (length (tasks s))],
                        tasks := tasks s @ [\<lparr>t_worker = i, t_item = item1, t_result = None\<rparr>]\<rparr>)
                 | Crash x e \<Rightarrow>
                     Some ((set_queue i q s)\<lparr>world := e, crashed := crashed s @ [x]\<rparr>)))
      else None)"

text \<open>The outer \<^verbatim>\<open>select\<close> takes the case of the stop signal (lines 102 to 104).\<close>

definition worker_stop_signal :: "nat \<Rightarrow> sys \<Rightarrow> sys option" where
  "worker_stop_signal i s =
     (if live i s \<and> loops s ! i = Idle \<and> closed (stopSignal (workers (pool s) ! i)) then
        (let w = workers (pool s) ! i
         in case log_call w (DrainingQueue (id_w w)) (world s) of
              (None, e) \<Rightarrow> Some (s\<lparr>world := e, loops := (loops s)[i := Draining]\<rparr>)
            | (Some x, e) \<Rightarrow> Some (s\<lparr>world := e, crashed := crashed s @ [x]\<rparr>))
      else None)"

text \<open>One turn of the drain loop (lines 105 to 123); its last turn ends the goroutine.\<close>

definition worker_drain :: "lib \<Rightarrow> nat \<Rightarrow> sys \<Rightarrow> sys option" where
  "worker_drain L i s =
     (if live i s \<and> loops s ! i = Draining then
        (let w = workers (pool s) ! i
         in case recv (queue w) of
              Some (item, q) \<Rightarrow>
                (case dequeue_drain L w item (world s) of
                   (None, e) \<Rightarrow> Some ((set_queue i q s)\<lparr>world := e\<rparr>)
                 | (Some x, e) \<Rightarrow>
                     Some ((set_queue i q s)\<lparr>world := e, crashed := crashed s @ [x]\<rparr>))
            | None \<Rightarrow>
                (case log_call w (ShutdownComplete (id_w w)) (world s) of
                   (None, e) \<Rightarrow>
                     Some (s\<lparr>pool := (pool s)\<lparr>wg := wg (pool s) - 1\<rparr>, world := e,
                             loops := (loops s)[i := Stopped]\<rparr>)
                 | (Some x, e) \<Rightarrow> Some (s\<lparr>world := e, crashed := crashed s @ [x]\<rparr>)))
      else None)"

text \<open>The task goroutine runs (lines 69 to 72).\<close>

definition run_task :: "lib \<Rightarrow> nat \<Rightarrow> sys \<Rightarrow> sys option" where
  "run_task L g s =
     (if g < length (tasks s) \<and> t_result (tasks s ! g) = None
         \<and> t_worker (tasks s ! g) < length (workers (pool s)) then
        (let t = tasks s ! g
         in case safeExecute L (workers (pool s) ! t_worker t) (t_item t) (world s) of
              (Inl x, item1, e1) \<Rightarrow> Some (s\<lparr>world := e1, crashed := crashed s @ [x]\<rparr>)
            | (Inr r, item1, e1) \<Rightarrow>
                Some (s\<lparr>world := e1,
                        tasks := (tasks s)[g := t\<lparr>t_item := item1, t_result := Some r\<rparr>]\<rparr>))
      else None)"

text \<open>The inner \<^verbatim>\<open>select\<close> takes the case of \<^verbatim>\<open>done\<close> (lines 75 to 82).\<close>

definition worker_task_done :: "nat \<Rightarrow> sys \<Rightarrow> sys option" where
  "worker_task_done i s =
     (if live i s then
        (case loops s ! i of
           Waiting g \<Rightarrow>
             (if g < length (tasks s) then
                (case t_result (tasks s ! g) of
                   None \<Rightarrow> None
                 | Some r \<Rightarrow>
                     (case report (workers (pool s) ! i) (t_item (tasks s ! g)) r (world s) of
                        (None, e) \<Rightarrow> Some (s\<lparr>world := e, loops := (loops s)[i := Idle]\<rparr>)
                      | (Some x, e) \<Rightarrow> Some (s\<lparr>world := e, crashed := crashed s @ [x]\<rparr>)))
              else None)
         | _ \<Rightarrow> None)
      else None)"

text \<open>The inner \<^verbatim>\<open>select\<close> takes the case of \<^verbatim>\<open>item.ctx.Done()\<close> (lines 83 to 86).\<close>

definition worker_ctx_done :: "nat \<Rightarrow> sys \<Rightarrow> sys option" where
  "worker_ctx_done i s =
     (if live i s then
        (case loops s ! i of
           Waiting g \<Rightarrow>
             (if g < length (tasks s) \<and> IsCancelled (t_item (tasks s ! g)) (world s) then
                (case cancelled_during (workers (pool s) ! i) (t_item (tasks s ! g)) (world s) of
                   (None, e) \<Rightarrow> Some (s\<lparr>world := e, loops := (loops s)[i := Idle]\<rparr>)
                 | (Some x, e) \<Rightarrow> Some (s\<lparr>world := e, crashed := crashed s @ [x]\<rparr>))
              else None)
         | _ \<Rightarrow> None)
      else None)"

datatype action =
    CallStart
  | StopBegin
  | StopEnd
  | EnqueueBegin string "work option" EnqueueOptions
  | EnqueueSend nat
  | Receive nat
  | StopSignal nat
  | Drain nat
  | RunTask nat
  | TaskDone nat
  | CtxDone nat
  | Fire nat
  | Advance time

fun step :: "lib \<Rightarrow> action \<Rightarrow> sys \<Rightarrow> sys option" where
  "step L CallStart s = (if mutex (pool s) then None else Some (Start s))"
| "step L StopBegin s = (if mutex (pool s) then None else Some (Stop_begin s))"
| "step L StopEnd s = (if stopping s \<and> wg (pool s) = 0 then Some (Stop_end s) else None)"
| "step L (EnqueueBegin k f options) s =
     (if mutex (pool s) then None else Some (Enqueue_begin L k f options s))"
| "step L (EnqueueSend n) s = Enqueue_send n s"
| "step L (Receive i) s = worker_receive L i s"
| "step L (StopSignal i) s = worker_stop_signal i s"
| "step L (Drain i) s = worker_drain L i s"
| "step L (RunTask g) s = run_task L g s"
| "step L (TaskDone i) s = worker_task_done i s"
| "step L (CtxDone i) s = worker_ctx_done i s"
| "step L (Fire c) s = Some (s\<lparr>world := (world s)\<lparr>fired := insert c (fired (world s))\<rparr>\<rparr>)"
| "step L (Advance t) s =
     (if now (world s) \<le> t then Some (s\<lparr>world := (world s)\<lparr>now := t\<rparr>\<rparr>) else None)"

text \<open>A schedule runs step by step; a process that has panicked takes no further step.\<close>

fun run :: "lib \<Rightarrow> action list \<Rightarrow> sys \<Rightarrow> sys option" where
  "run L [] s = Some s"
| "run L (a # as) s =
     (if crashed s \<noteq> [] then None
      else (case step L a s of None \<Rightarrow> None | Some s1 \<Rightarrow> run L as s1))"

text \<open>
  The item as \<^verbatim>\<open>safeExecute\<close> receives it: at the outer \<^verbatim>\<open>select\<close> a task without a
  context is given \<^verbatim>\<open>context.Background()\<close> first (line 90); the drain loop and the task
  goroutine pass the item as it is.
\<close>

definition as_run :: "phase \<Rightarrow> QueueItem \<Rightarrow> QueueItem" where
  "as_run ph item = (if ph = Idle \<and> ctx item = None then item\<lparr>ctx := Some Background\<rparr> else item)"


text \<open>
  The provisos of the statements below: every call of the worker's logger returns (so the
  worker has a logger), and the fault handler the worker calls, its own or the default,
  returns whatever it is called with.
\<close>

definition logger_returns :: "Worker \<Rightarrow> bool" where
  "logger_returns w = (\<exists>lg. logger w = Some lg \<and> (\<forall>l. lg l = Returned))"

definition handler_returns :: "Worker \<Rightarrow> bool" where
  "handler_returns w =
     (\<forall>item r stackTrace.
        (case panicHandler w of Some h \<Rightarrow> h | None \<Rightarrow> DefaultPanicHandler) item r stackTrace
          = Returned)"

text \<open>What the task leaves behind when it has run to its end and the worker has logged it.\<close>

definition handled :: "lib \<Rightarrow> Worker \<Rightarrow> phase \<Rightarrow> QueueItem \<Rightarrow> env \<Rightarrow> env" where
  "handled L w ph item e = snd (run_and_report L w (as_run ph item) e)"

section \<open>Concrete inputs\<close>

definition env0 :: env where
  "env0 =
     \<lparr>now = 1000, fired = {}, stack = ''goroutine 7 [running]:'', heap = Map.empty,
      nextAddr = 0, logs = [], events = []\<rparr>"

definition no_opts :: EnqueueOptions where
  "no_opts = \<lparr>opt_expireTime = 0, itemCtx = None, opt_metadata = None\<rparr>"

definition ctx0 :: Context where
  "ctx0 = \<lparr>cancel = Some 0, vals = Map.empty\<rparr>"

definition ok_work :: work where
  "ok_work = (\<lambda>c. Returned)"

definition bad_work :: work where
  "bad_work = (\<lambda>c. Panicked (VStr ''boom''))"

definition task_of :: "string \<Rightarrow> work \<Rightarrow> Context option \<Rightarrow> time \<Rightarrow> QueueItem" where
  "task_of k f c t =
     \<lparr>key = k, fn = Some f, ctx = c, metadata = None, enqueueTime = t, expireTime = 0\<rparr>"

definition worker0 :: Worker where
  "worker0 = new_worker 100 0"

text \<open>A caller's metadata map at address 0, and options that pass it.\<close>

definition env1 :: env where
  "env1 = env0\<lparr>heap := [0 \<mapsto> [''user'' \<mapsto> VStr ''alice'']], nextAddr := 1\<rparr>"

definition meta_opts :: EnqueueOptions where
  "meta_opts = no_opts\<lparr>opt_metadata := Some 0\<rparr>"

text \<open>The state a schedule leads to from a new pool of one worker.\<close>

definition after :: "action list \<Rightarrow> sys" where
  "after sched = the (run go_lib sched (boot (fst (NewPool 1 100 KeyBased)) env0))"

definition start_stop_schedule :: "action list" where
  "start_stop_schedule = [CallStart, StopBegin, StopSignal 0, Drain 0, StopEnd]"

text \<open>A task that panics and a task that returns are in the buffer of the running worker.\<close>

definition faulty_schedule :: "action list" where
  "faulty_schedule =
     [CallStart, EnqueueBegin ''a'' (Some bad_work) no_opts, EnqueueSend 0,
      EnqueueBegin ''b'' (Some ok_work) no_opts, EnqueueSend 1]"

text \<open>
  A task with an expiration time and a cancellation handle is admitted; the clock then
  passes the expiration time and the handle fires.
\<close>

definition stale_opts :: EnqueueOptions where
  "stale_opts = \<lparr>opt_expireTime = 1500, itemCtx = Some ctx0, opt_metadata = None\<rparr>"

definition stale_schedule :: "action list" where
  "stale_schedule =
     [CallStart, EnqueueBegin ''a'' (Some ok_work) stale_opts, EnqueueSend 0,
      Advance 2000, Fire 0]"

text \<open>
  The caller's send is over when \<^verbatim>\<open>Stop\<close> is called: the worker drains the task and
  returns, and \<^verbatim>\<open>Stop\<close> closes the buffer.
\<close>

definition orderly_schedule :: "action list" where
  "orderly_schedule =
     [CallStart, EnqueueBegin ''a'' (Some ok_work) no_opts, EnqueueSend 0,
      StopBegin, StopSignal 0, Drain 0, Drain 0, StopEnd]"

text \<open>
  A caller passes the running check of \<^verbatim>\<open>Enqueue\<close>; \<^verbatim>\<open>Stop\<close> then runs from its first
  line to its last; the caller then reaches its send.
\<close>

definition late_send_schedule :: "action list" where
  "late_send_schedule =
     [CallStart, EnqueueBegin ''a'' (Some ok_work) no_opts,
      StopBegin, StopSignal 0, Drain 0, StopEnd, EnqueueSend 0]"

text \<open>
  The same, but the send happens after the worker has left its drain loop and before
  \<^verbatim>\<open>Stop\<close> closes the buffer.
\<close>

definition stranded_schedule :: "action list" where
  "stranded_schedule =
     [CallStart, EnqueueBegin ''a'' (Some ok_work) no_opts,
      StopBegin, StopSignal 0, Drain 0, EnqueueSend 0, StopEnd]"

text \<open>
  Two tasks of key \<open>a\<close> are admitted one after the other, the first with a cancellation
  handle. The worker dequeues the first and starts its goroutine; the handle fires; the
  worker takes the cancellation case, dequeues the second task and runs it; the goroutine
  of the first task runs afterwards.
\<close>

definition overtaking_schedule :: "action list" where
  "overtaking_schedule =
     [CallStart,
      EnqueueBegin ''a'' (Some ok_work) (no_opts\<lparr>itemCtx := Some ctx0\<rparr>), EnqueueSend 0,
      Advance 1001,
      EnqueueBegin ''a'' (Some ok_work) no_opts, EnqueueSend 1,
      Receive 0, Fire 0, CtxDone 0, Receive 0, RunTask 0]"

text \<open>
  The scenario of the specification: two workers, five tasks with the keys \<open>a\<close>, \<open>b\<close>,
  \<open>a\<close>, \<open>b\<close>, \<open>a\<close>, admitted one clock tick apart, none with a context; the workers
  then take their turns in some order.
\<close>

definition five_task_schedule :: "action list" where
  "five_task_schedule =
     [CallStart,
      EnqueueBegin ''a'' (Some ok_work) no_opts, EnqueueSend 0, Advance 1001,
      EnqueueBegin ''b'' (Some ok_work) no_opts, EnqueueSend 1, Advance 1002,
      EnqueueBegin ''a'' (Some ok_work) no_opts, EnqueueSend 2, Advance 1003,
      EnqueueBegin ''b'' (Some ok_work) no_opts, EnqueueSend 3, Advance 1004,
      EnqueueBegin ''a'' (Some ok_work) no_opts, EnqueueSend 4,
      Receive 1, Receive 0, Receive 0, Receive 1, Receive 0]"

text \<open>A task that panics, admitted with a cancellation handle and the caller's metadata.\<close>

definition faulty_item :: QueueItem where
  "faulty_item = (task_of ''a'' bad_work (Some ctx0) 1000)\<lparr>metadata := Some 0\<rparr>"


section \<open>Running the definitions on the concrete inputs\<close>

lemmas engine_defs =
  boot_def NewPool_def KeyBased_def RoundRobin_def
  Start_def Stop_begin_def Stop_end_def Enqueue_begin_def Enqueue_send_def admit_def deliver_def
  send_def to_def go_rem_def new_worker_def make_chan_def close_chan_def
  worker_receive_def worker_stop_signal_def worker_drain_def run_task_def worker_task_done_def
  worker_ctx_done_def live_def recv_def set_queue_def logf_def emit_def
  dequeue_steady_def dequeue_drain_def cancelled_during_def report_def run_and_report_def
  goes_on_def log_call_def IsExpired_def IsCancelled_def Done_def GetAge_def
  safeExecute_def recovered_with_def project_def call_def make_map_def store_def deref_def
  SetPanicHandler_def SetLogger_def NewDefaultLogger_def DefaultPanicHandler_def
  Background_def Let_def go_lib_def signed_modulo_int_def

lemma after_start:
  "after [CallStart] =
     \<lparr>pool = \<lparr>strategy = 0, roundRobinIndex = 0,
               workers = [\<lparr>id_w = 0, queue = \<lparr>buf = [], cap = 100, closed = False\<rparr>,
                           stopSignal = \<lparr>buf = [], cap = 0, closed = False\<rparr>,
                           panicHandler = Some DefaultPanicHandler,
                           logger = Some NewDefaultLogger\<rparr>],
               size_p = 1, wg = 1, mutex = False, isRunning = True\<rparr>,
      world = env0, loops = [Idle], tasks = [], callers = [], returned = [],
      stopping = False, crashed = []\<rparr>"
  by (simp add: after_def env0_def engine_defs)

lemma after_start_stop:
  "after start_stop_schedule =
     \<lparr>pool = \<lparr>strategy = 0, roundRobinIndex = 0,
               workers = [\<lparr>id_w = 0, queue = \<lparr>buf = [], cap = 100, closed = True\<rparr>,
                           stopSignal = \<lparr>buf = [], cap = 0, closed = True\<rparr>,
                           panicHandler = Some DefaultPanicHandler,
                           logger = Some NewDefaultLogger\<rparr>],
               size_p = 1, wg = 0, mutex = False, isRunning = False\<rparr>,
      world = env0\<lparr>logs := [DrainingQueue 0, ShutdownComplete 0]\<rparr>,
      loops = [Stopped], tasks = [], callers = [], returned = [],
      stopping = False, crashed = []\<rparr>"
  by (simp add: after_def start_stop_schedule_def env0_def engine_defs)


lemma after_stale:
  "after stale_schedule =
     \<lparr>pool = \<lparr>strategy = 0, roundRobinIndex = 0,
               workers = [\<lparr>id_w = 0,
                           queue = \<lparr>buf = [\<lparr>key = ''a'', fn = Some ok_work, ctx = Some ctx0,
                                            metadata = None, enqueueTime = 1000,
                                            expireTime = 1500\<rparr>],
                                    cap = 100, closed = False\<rparr>,
                           stopSignal = \<lparr>buf = [], cap = 0, closed = False\<rparr>,
                           panicHandler = Some DefaultPanicHandler,
                           logger = Some NewDefaultLogger\<rparr>],
               size_p = 1, wg = 1, mutex = False, isRunning = True\<rparr>,
      world = env0\<lparr>now := 2000, fired := {0}\<rparr>, loops = [Idle], tasks = [], callers = [None],
      returned = [Ok 0], stopping = False, crashed = []\<rparr>"
  by (simp add: after_def stale_schedule_def stale_opts_def env0_def ctx0_def engine_defs)

section \<open>Routing is deterministic and in range\<close>

lemma route_seq_KeyBased:
  "strategy p \<noteq> RoundRobin \<Longrightarrow> snd (route_seq L p ks) = p"
  by (induction ks) (simp_all add: to_def case_prod_beta)

lemma smod_nonneg:
  "0 \<le> a \<Longrightarrow> 0 < b \<Longrightarrow> a smod b = a mod (b::int)"
  by (simp add: signed_modulo_int_def sgn_if)

text \<open>
  Claim C7. Under the key-based strategy the routing call leaves the pool as it was and
  returns the hash of the key reduced modulo the pool size: the index depends on the key
  and the pool size only, lies in \<open>[0, size)\<close>, and is the same after any run of other
  routing calls.
\<close>

theorem to_KeyBased_deterministic:
  assumes "strategy p = KeyBased" and "0 < size_p p"
  shows "to L p k = (Inr (uint (Sum32 L k) mod size_p p), p)
       \<and> 0 \<le> uint (Sum32 L k) mod size_p p
       \<and> uint (Sum32 L k) mod size_p p < size_p p
       \<and> (\<forall>ks. to L (snd (route_seq L p ks)) k = (Inr (uint (Sum32 L k) mod size_p p), p))"
proof -
  have nr: "strategy p \<noteq> RoundRobin"
    using assms(1) by (simp add: KeyBased_def RoundRobin_def)
  have one: "to L p k = (Inr (uint (Sum32 L k) mod size_p p), p)"
    using nr assms(2) by (simp add: to_def go_rem_def smod_nonneg)
  show ?thesis
    using one assms(2) by (simp add: route_seq_KeyBased [OF nr])
qed

text \<open>
  With two workers, key \<open>a\<close> goes to worker 0 and key \<open>b\<close> to worker 1, also after
  other keys have been routed.
\<close>

theorem to_KeyBased_deterministic_witness:
  "strategy (fst (NewPool 2 100 KeyBased)) = KeyBased
   \<and> 0 < size_p (fst (NewPool 2 100 KeyBased))
   \<and> fst (to go_lib (fst (NewPool 2 100 KeyBased)) ''a'') = Inr 0
   \<and> fst (to go_lib (fst (NewPool 2 100 KeyBased)) ''b'') = Inr 1
   \<and> fst (to go_lib (snd (route_seq go_lib (fst (NewPool 2 100 KeyBased)) [''b'', ''a'', ''b''])) ''a'') = Inr 0"
proof -
  let ?p = "fst (NewPool 2 100 KeyBased)"
  have h1: "strategy ?p = KeyBased" by (simp add: NewPool_def KeyBased_def RoundRobin_def)
  have h2: "0 < size_p ?p" by (simp add: NewPool_def)
  have sz: "size_p ?p = 2" by (simp add: NewPool_def)
  have a: "uint (Sum32 go_lib ''a'') mod 2 = 0"
    by (simp add: go_lib_def murmur3_Sum32_def fmix32_def mix_k_def rotl32_def byte_of_def)
  have b: "uint (Sum32 go_lib ''b'') mod 2 = 1"
    by (simp add: go_lib_def murmur3_Sum32_def fmix32_def mix_k_def rotl32_def byte_of_def)
  show ?thesis
    using to_KeyBased_deterministic [OF h1 h2, of go_lib "''a''"]
          to_KeyBased_deterministic [OF h1 h2, of go_lib "''b''"] h1 h2
    by (simp add: sz a b)
qed

text \<open>
  Claim C9. A worker count that is not positive gives exactly one worker, a buffer capacity
  that is not positive gives capacity 100 for every worker, and a strategy value other than
  the two known ones gives the key-based strategy and one warning. Valid inputs are kept.
  \<open>NewPool\<close> has no error result.
\<close>

theorem NewPool_defaults:
  "(poolSize \<le> 0 \<longrightarrow> size_p (fst (NewPool poolSize bufferSize s)) = 1
                    \<and> length (workers (fst (NewPool poolSize bufferSize s))) = 1)
   \<and> (0 < poolSize \<longrightarrow> size_p (fst (NewPool poolSize bufferSize s)) = poolSize
                    \<and> int (length (workers (fst (NewPool poolSize bufferSize s)))) = poolSize)
   \<and> (\<forall>w \<in> set (workers (fst (NewPool poolSize bufferSize s))).
         cap (queue w) = (if bufferSize \<le> 0 then 100 else nat bufferSize))
   \<and> (s \<noteq> KeyBased \<and> s \<noteq> RoundRobin \<longrightarrow>
         strategy (fst (NewPool poolSize bufferSize s)) = KeyBased
         \<and> snd (NewPool poolSize bufferSize s) = [InvalidStrategy s])
   \<and> (s = KeyBased \<or> s = RoundRobin \<longrightarrow>
         strategy (fst (NewPool poolSize bufferSize s)) = s
         \<and> snd (NewPool poolSize bufferSize s) = [])"
  by (auto simp: NewPool_def Let_def new_worker_def make_chan_def)

text \<open>
  \<open>NewPool 0 0 7\<close> takes all three defaults; \<open>NewPool 3 5 RoundRobin\<close> takes none.
\<close>

theorem NewPool_defaults_witness:
  "size_p (fst (NewPool 0 0 7)) = 1
   \<and> length (workers (fst (NewPool 0 0 7))) = 1
   \<and> map (cap \<circ> queue) (workers (fst (NewPool 0 0 7))) = [100]
   \<and> strategy (fst (NewPool 0 0 7)) = KeyBased
   \<and> snd (NewPool 0 0 7) = [InvalidStrategy 7]
   \<and> size_p (fst (NewPool 3 5 RoundRobin)) = 3
   \<and> map (cap \<circ> queue) (workers (fst (NewPool 3 5 RoundRobin))) = [5, 5, 5]
   \<and> strategy (fst (NewPool 3 5 RoundRobin)) = RoundRobin
   \<and> snd (NewPool 3 5 RoundRobin) = []"
proof -
  have w1: "map (cap \<circ> queue) (workers (fst (NewPool 0 0 7))) = [100]"
    by (simp add: NewPool_def Let_def new_worker_def make_chan_def)
  have w2: "map (cap \<circ> queue) (workers (fst (NewPool 3 5 RoundRobin))) = [5, 5, 5]"
    by (simp add: NewPool_def Let_def upto.simps new_worker_def make_chan_def)
  have t1: "size_p (fst (NewPool 0 0 7)) = 1 \<and> length (workers (fst (NewPool 0 0 7))) = 1
      \<and> strategy (fst (NewPool 0 0 7)) = KeyBased \<and> snd (NewPool 0 0 7) = [InvalidStrategy 7]"
    using NewPool_defaults [of 0 0 7] by (simp add: KeyBased_def RoundRobin_def)
  have t2: "size_p (fst (NewPool 3 5 RoundRobin)) = 3
      \<and> strategy (fst (NewPool 3 5 RoundRobin)) = RoundRobin \<and> snd (NewPool 3 5 RoundRobin) = []"
    using NewPool_defaults [of 3 5 RoundRobin] by simp
  show ?thesis
    using w1 w2 t1 t2 by simp
qed

text \<open>
  The scenario of the specification: \<open>NewPool 0 0 KeyBased\<close> is a pool of one worker
  with buffer capacity 100, and no warning.
\<close>

lemma NewPool_zero_zero_KeyBased:
  "NewPool 0 0 KeyBased =
     (\<lparr>strategy = KeyBased, roundRobinIndex = 0,
       workers = [\<lparr>id_w = 0, queue = \<lparr>buf = [], cap = 100, closed = False\<rparr>,
                   stopSignal = \<lparr>buf = [], cap = 0, closed = False\<rparr>,
                   panicHandler = Some DefaultPanicHandler,
                           logger = Some NewDefaultLogger\<rparr>],
       size_p = 1, wg = 0, mutex = False, isRunning = False\<rparr>, [])"
  by (simp add: NewPool_def new_worker_def make_chan_def KeyBased_def RoundRobin_def)

text \<open>
  Every pool that \<open>NewPool\<close> builds has a positive size, as many workers as its size says,
  numbered from 0, one of the two strategies, and is not running.
\<close>

lemma NewPool_wellformed:
  "0 < size_p (fst (NewPool poolSize bufferSize s))
   \<and> int (length (workers (fst (NewPool poolSize bufferSize s))))
       = size_p (fst (NewPool poolSize bufferSize s))
   \<and> (strategy (fst (NewPool poolSize bufferSize s)) = KeyBased
      \<or> strategy (fst (NewPool poolSize bufferSize s)) = RoundRobin)
   \<and> roundRobinIndex (fst (NewPool poolSize bufferSize s)) = 0
   \<and> \<not> isRunning (fst (NewPool poolSize bufferSize s))"
  by (simp add: NewPool_def Let_def)

lemma NewPool_worker_ids:
  "map id_w (workers (fst (NewPool poolSize bufferSize s)))
     = [0..(if poolSize \<le> 0 then 1 else poolSize) - 1]"
  by (simp add: NewPool_def Let_def new_worker_def comp_def)

section \<open>Round-robin routing is even\<close>

lemma sint_succ:
  fixes c :: "64 word"
  assumes "0 \<le> sint c" "sint c + 1 < 2 ^ 63"
  shows "sint (c + 1) = sint c + 1"
proof -
  have "sint (c + 1) = signed_take_bit 63 (sint c + sint (1 :: 64 word))"
    by (simp add: sint_word_ariths)
  also have "\<dots> = signed_take_bit 63 (sint c + 1)" by simp
  also have "\<dots> = sint c + 1"
    using assms by (intro signed_take_bit_int_eq_self) simp_all
  finally show ?thesis .
qed

lemma residue_iff:
  fixes c i P n :: int
  assumes "0 < P" "0 \<le> i" "i < P"
  shows "((c + n) mod P = i) = ((n + (P - 1 - (i - c) mod P) + 1) mod P = 0)"
proof -
  have "(n + (P - 1 - (i - c) mod P) + 1) mod P = (n - (i - c) mod P + P) mod P"
    by (simp add: algebra_simps)
  also have "\<dots> = (n - (i - c) mod P) mod P" by simp
  also have "\<dots> = (n - (i - c)) mod P" by (simp add: mod_diff_right_eq)
  also have "\<dots> = (c + n - i) mod P" by (simp add: algebra_simps)
  finally have r: "((n + (P - 1 - (i - c) mod P) + 1) mod P = 0) = (P dvd c + n - i)"
    by (simp add: mod_eq_0_iff_dvd)
  have "(P dvd c + n - i) = ((c + n) mod P = i mod P)"
    by (simp add: mod_eq_dvd_iff)
  also have "\<dots> = ((c + n) mod P = i)" using assms by simp
  finally show ?thesis using r by simp
qed

lemma count_residues:
  fixes c i P :: int
  assumes "0 < P" "0 \<le> i" "i < P"
  shows "count_list (map (\<lambda>j. (c + int j) mod P) [0..<N]) i
           = (N + nat (P - 1 - (i - c) mod P)) div nat P"
proof (induction N)
  case 0
  have "(i - c) mod P \<ge> 0" using assms(1) by simp
  then have "nat (P - 1 - (i - c) mod P) < nat P" using assms(1) by linarith
  then show ?case by simp
next
  case (Suc N)
  let ?e = "P - 1 - (i - c) mod P"
  have e0: "0 \<le> ?e" using assms(1) pos_mod_bound [of P "i - c"] by linarith
  have "(Suc (N + nat ?e) mod nat P = 0) = ((int N + ?e + 1) mod P = 0)"
  proof -
    have "int (Suc (N + nat ?e) mod nat P) = (int N + ?e + 1) mod P"
      using e0 assms(1) by (simp add: zmod_int algebra_simps)
    then show ?thesis by (metis of_nat_eq_0_iff)
  qed
  also have "\<dots> = ((c + int N) mod P = i)"
    using residue_iff [OF assms, of c "int N"] by simp
  finally have k: "(Suc (N + nat ?e) mod nat P = 0) = ((c + int N) mod P = i)" .
  show ?case
    using Suc.IH k by (simp add: div_Suc)
qed

lemma floor_or_ceil:
  fixes N P e c :: nat
  assumes "0 < P" "e < P" "c = (N + e) div P"
  shows "c = N div P \<or> c = (N + P - 1) div P"
proof -
  have lo: "N div P \<le> c" using assms(3) by (simp add: div_le_mono)
  have hi: "c \<le> (N + P - 1) div P" using assms by (simp add: div_le_mono)
  have "(N + P - 1) div P \<le> (N + P) div P" by (simp add: div_le_mono)
  also have "\<dots> = N div P + 1" using assms(1) div_add_self2 [of P N] by simp
  finally show ?thesis using lo hi by linarith
qed

lemma route_seq_RoundRobin:
  assumes "strategy p = RoundRobin" "0 < size_p p"
    and "0 \<le> sint (roundRobinIndex p)"
    and "sint (roundRobinIndex p) + int (length ks) < 2 ^ 63"
  shows "fst (route_seq L p ks)
           = map (\<lambda>j. Inr ((sint (roundRobinIndex p) + int j) mod size_p p)) [0..<length ks]"
  using assms
proof (induction ks arbitrary: p)
  case Nil
  then show ?case by simp
next
  case (Cons k ks)
  let ?c = "roundRobinIndex p"
  let ?p1 = "p\<lparr>roundRobinIndex := ?c + 1\<rparr>"
  have step: "to L p k = (Inr (sint ?c mod size_p p), ?p1)"
    using Cons.prems by (simp add: to_def go_rem_def smod_nonneg)
  have s1: "sint (?c + 1) = sint ?c + 1"
    using Cons.prems by (intro sint_succ) simp_all
  have ih: "fst (route_seq L ?p1 ks)
              = map (\<lambda>j. Inr ((sint ?c + 1 + int j) mod size_p p)) [0..<length ks]"
    using Cons.IH [of ?p1] Cons.prems s1 by simp
  have shift: "map (\<lambda>j. Inr ((sint ?c + int j) mod size_p p) :: panic + int) [0..<Suc (length ks)]
       = Inr (sint ?c mod size_p p) # map (\<lambda>j. Inr ((sint ?c + 1 + int j) mod size_p p)) [0..<length ks]"
    by (simp add: upt_conv_Cons map_Suc_upt [symmetric] algebra_simps del: upt_Suc)
  show ?case
    using step ih shift by (simp add: case_prod_beta del: upt_Suc)
qed

lemma to_RoundRobin_key:
  "strategy p = RoundRobin \<Longrightarrow> to L p k = to L p k'"
  by (simp add: to_def)

lemma route_seq_RoundRobin_keys:
  "strategy p = RoundRobin \<Longrightarrow> length ks = length ks' \<Longrightarrow> route_seq L p ks = route_seq L p ks'"
proof (induction ks ks' arbitrary: p rule: list_induct2')
  case (4 k ks k' ks')
  have "to L p k = to L p k'" using 4 by (simp add: to_def)
  moreover have "strategy (snd (to L p k')) = RoundRobin" using 4 by (simp add: to_def Let_def)
  ultimately show ?case using 4 by (simp add: case_prod_beta)
qed simp_all

lemma count_list_map_inj:
  "inj f \<Longrightarrow> count_list (map f xs) (f y) = count_list xs y"
  by (induction xs) (auto dest: injD)

text \<open>
  Claim C8. Under the round-robin strategy a run of routing calls returns the same
  indices whatever the keys are, and each worker index is returned \<open>\<lfloor>N/P\<rfloor>\<close> or
  \<open>\<lceil>N/P\<rceil>\<close> times in \<open>N\<close> calls on a pool of size \<open>P\<close>. The counter is an
  \<^verbatim>\<open>int64\<close>: the statement is for runs in which it does not pass \<open>2^63 - 1\<close>, which
  covers the first \<open>2^63 - 1\<close> calls on a new pool.
\<close>

theorem to_RoundRobin_even:
  assumes "strategy p = RoundRobin" and "0 < size_p p"
    and "0 \<le> sint (roundRobinIndex p)"
    and "sint (roundRobinIndex p) + int (length ks) < 2 ^ 63"
    and "0 \<le> i" and "i < size_p p"
    and "length ks' = length ks"
  shows "route_seq L p ks' = route_seq L p ks
       \<and> (count_list (fst (route_seq L p ks)) (Inr i) = length ks div nat (size_p p)
          \<or> count_list (fst (route_seq L p ks)) (Inr i)
               = (length ks + nat (size_p p) - 1) div nat (size_p p))"
proof -
  let ?c = "sint (roundRobinIndex p)"
  let ?P = "size_p p"
  let ?e = "nat (?P - 1 - (i - ?c) mod ?P)"
  have keys: "route_seq L p ks' = route_seq L p ks"
    using assms(1,7) by (rule route_seq_RoundRobin_keys)
  have "fst (route_seq L p ks) = map (\<lambda>j. Inr ((?c + int j) mod ?P)) [0..<length ks]"
    using assms(1-4) by (rule route_seq_RoundRobin)
  also have "\<dots> = map Inr (map (\<lambda>j. (?c + int j) mod ?P) [0..<length ks])"
    by simp
  finally have "count_list (fst (route_seq L p ks)) (Inr i)
      = count_list (map (\<lambda>j. (?c + int j) mod ?P) [0..<length ks]) i"
    by (simp only: count_list_map_inj [OF inj_Inr])
  also have "\<dots> = (length ks + ?e) div nat ?P"
    using assms(2,5,6) by (rule count_residues)
  finally have cnt: "count_list (fst (route_seq L p ks)) (Inr i) = (length ks + ?e) div nat ?P" .
  have "0 \<le> (i - ?c) mod ?P" using assms(2) by simp
  then have e: "?e < nat ?P" using assms(2) by linarith
  have "count_list (fst (route_seq L p ks)) (Inr i) = length ks div nat ?P
      \<or> count_list (fst (route_seq L p ks)) (Inr i) = (length ks + nat ?P - 1) div nat ?P"
    using assms(2) e cnt by (intro floor_or_ceil [where e = ?e]) simp_all
  then show ?thesis using keys by simp
qed

text \<open>
  Seven calls on a new pool of three workers: worker 1 is chosen twice, whatever the keys.
\<close>

theorem to_RoundRobin_even_witness:
  "fst (route_seq go_lib (fst (NewPool 3 100 RoundRobin))
          [''a'', ''b'', ''a'', ''c'', ''a'', ''b'', ''z''])
     = [Inr 0, Inr 1, Inr 2, Inr 0, Inr 1, Inr 2, Inr 0]
   \<and> route_seq go_lib (fst (NewPool 3 100 RoundRobin)) [''k'', ''k'', ''k'', ''k'', ''k'', ''k'', ''k'']
       = route_seq go_lib (fst (NewPool 3 100 RoundRobin)) [''a'', ''b'', ''a'', ''c'', ''a'', ''b'', ''z'']
   \<and> count_list (fst (route_seq go_lib (fst (NewPool 3 100 RoundRobin))
          [''a'', ''b'', ''a'', ''c'', ''a'', ''b'', ''z''])) (Inr 1) = 2"
proof -
  let ?p = "fst (NewPool 3 100 RoundRobin)"
  let ?ks = "[''a'', ''b'', ''a'', ''c'', ''a'', ''b'', ''z'']"
  let ?ks' = "[''k'', ''k'', ''k'', ''k'', ''k'', ''k'', ''k'']"
  have h1: "strategy ?p = RoundRobin" by (simp add: NewPool_def KeyBased_def RoundRobin_def)
  have h2: "0 < size_p ?p" by (simp add: NewPool_def)
  have h3: "0 \<le> sint (roundRobinIndex ?p)" by (simp add: NewPool_def)
  have h4: "sint (roundRobinIndex ?p) + int (length ?ks) < 2 ^ 63" by (simp add: NewPool_def)
  have h5: "(0::int) \<le> 1" by simp
  have h6: "1 < size_p ?p" by (simp add: NewPool_def)
  have h7: "length ?ks' = length ?ks" by simp
  have sz: "size_p ?p = 3" by (simp add: NewPool_def)
  have run: "fst (route_seq go_lib ?p ?ks) = [Inr 0, Inr 1, Inr 2, Inr 0, Inr 1, Inr 2, Inr 0]"
    by (simp add: NewPool_def KeyBased_def RoundRobin_def to_def go_rem_def signed_modulo_int_def)
  show ?thesis
    using to_RoundRobin_even [OF h1 h2 h3 h4 h5 h6 h7, of go_lib] run
    by (simp add: sz)
qed

section \<open>Rejection at admission\<close>

lemma admit_rejects:
  "admit L k f options p e = (Err x, p1, e1) \<Longrightarrow> p1 = p \<and> e1 = e"
  by (auto simp: admit_def Let_def case_prod_beta split: if_splits sum.splits prod.splits option.splits)

lemma deliver_no_error:
  "deliver i item p \<noteq> (Err x, p1)"
  by (auto simp: deliver_def send_def Let_def split: if_splits outcome.splits)

text \<open>
  Claim C6. \<open>Enqueue\<close> returns \<open>ErrQueueNotRunning\<close> when the pool is not running (not yet
  started, or stopped); on a running pool it returns \<open>ErrQueueItemExpired\<close> when the
  expiration time is set and already past, and otherwise \<open>ErrQueueItemCancelled\<close> when the
  handle has already fired. Whenever it returns an error, the pool and everything around it
  are as they were: no buffer has changed, and \<open>GetQueueLength\<close> answers as before.
\<close>

theorem Enqueue_rejects:
  "(\<not> isRunning p \<longrightarrow> Enqueue L k f options p e = (Err ErrQueueNotRunning, p, e))
   \<and> (isRunning p \<and> opt_expireTime options \<noteq> 0 \<and> opt_expireTime options < now e \<longrightarrow>
         Enqueue L k f options p e = (Err ErrQueueItemExpired, p, e))
   \<and> (isRunning p \<and> \<not> (opt_expireTime options \<noteq> 0 \<and> opt_expireTime options < now e)
         \<and> itemCtx options = Some c \<and> Done c e \<longrightarrow>
         Enqueue L k f options p e = (Err ErrQueueItemCancelled, p, e))
   \<and> (Enqueue L k f options p e = (Err x, p1, e1) \<longrightarrow>
         p1 = p \<and> e1 = e \<and> map (length \<circ> buf \<circ> queue) (workers p1) = map (length \<circ> buf \<circ> queue) (workers p)
         \<and> GetQueueLength p1 j = GetQueueLength p j)"
proof -
  have a: "\<not> isRunning p \<longrightarrow> Enqueue L k f options p e = (Err ErrQueueNotRunning, p, e)"
    by (simp add: Enqueue_def admit_def)
  have b: "isRunning p \<and> opt_expireTime options \<noteq> 0 \<and> opt_expireTime options < now e \<longrightarrow>
         Enqueue L k f options p e = (Err ErrQueueItemExpired, p, e)"
    by (simp add: Enqueue_def admit_def)
  have c: "isRunning p \<and> \<not> (opt_expireTime options \<noteq> 0 \<and> opt_expireTime options < now e)
         \<and> itemCtx options = Some c \<and> Done c e \<longrightarrow>
         Enqueue L k f options p e = (Err ErrQueueItemCancelled, p, e)"
    by (auto simp: Enqueue_def admit_def)
  have d: "Enqueue L k f options p e = (Err x, p1, e1) \<longrightarrow> p1 = p \<and> e1 = e"
  proof
    assume h: "Enqueue L k f options p e = (Err x, p1, e1)"
    obtain r p2 e2 where ad: "admit L k f options p e = (r, p2, e2)"
      by (cases "admit L k f options p e") auto
    show "p1 = p \<and> e1 = e"
    proof (cases r)
      case (Ok ci)
      obtain r3 p3 where dl: "deliver (fst ci) (snd ci) p2 = (r3, p3)"
        by (cases "deliver (fst ci) (snd ci) p2") auto
      from h ad Ok dl have "r3 = Err x" "p3 = p1"
        by (simp_all add: Enqueue_def case_prod_beta)
      with dl deliver_no_error show ?thesis by blast
    next
      case (Err y)
      with h ad have "y = x" "p2 = p1" "e2 = e1" by (simp_all add: Enqueue_def)
      with ad Err admit_rejects show ?thesis by blast
    next
      case (Panics y)
      with h ad show ?thesis by (simp add: Enqueue_def)
    next
      case Blocks
      with h ad show ?thesis by (simp add: Enqueue_def)
    qed
  qed
  show ?thesis using a b c d by auto
qed

text \<open>
  A pool that was never started and a pool after \<open>Start\<close> and \<open>Stop\<close> reject with
  \<open>ErrQueueNotRunning\<close>; a running pool rejects a deadline of 999 at time 1000, and a
  handle that has fired.
\<close>

theorem Enqueue_rejects_witness:
  "Enqueue go_lib ''a'' (Some ok_work) no_opts (fst (NewPool 1 100 KeyBased)) env0
     = (Err ErrQueueNotRunning, fst (NewPool 1 100 KeyBased), env0)
   \<and> Enqueue go_lib ''a'' (Some ok_work) no_opts (pool (after start_stop_schedule)) env0
     = (Err ErrQueueNotRunning, pool (after start_stop_schedule), env0)
   \<and> Enqueue go_lib ''a'' (Some ok_work) (no_opts\<lparr>opt_expireTime := 999\<rparr>) (pool (after [CallStart])) env0
     = (Err ErrQueueItemExpired, pool (after [CallStart]), env0)
   \<and> Enqueue go_lib ''a'' (Some ok_work) (no_opts\<lparr>itemCtx := Some ctx0\<rparr>) (pool (after [CallStart]))
         (env0\<lparr>fired := {0}\<rparr>)
     = (Err ErrQueueItemCancelled, pool (after [CallStart]), env0\<lparr>fired := {0}\<rparr>)
   \<and> GetQueueLength (pool (after [CallStart])) 0 = Ok 0"
proof -
  let ?new = "fst (NewPool 1 100 KeyBased)"
  let ?run = "pool (after [CallStart])"
  let ?old = "pool (after start_stop_schedule)"
  have n: "\<not> isRunning ?new" by (simp add: NewPool_def)
  have o: "\<not> isRunning ?old" by (simp add: after_start_stop)
  have r: "isRunning ?run" by (simp add: after_start)
  have x: "opt_expireTime (no_opts\<lparr>opt_expireTime := 999\<rparr>) \<noteq> 0
           \<and> opt_expireTime (no_opts\<lparr>opt_expireTime := 999\<rparr>) < now env0"
    by (simp add: env0_def)
  have c: "\<not> (opt_expireTime (no_opts\<lparr>itemCtx := Some ctx0\<rparr>) \<noteq> 0
               \<and> opt_expireTime (no_opts\<lparr>itemCtx := Some ctx0\<rparr>) < now (env0\<lparr>fired := {0}\<rparr>))
           \<and> itemCtx (no_opts\<lparr>itemCtx := Some ctx0\<rparr>) = Some ctx0
           \<and> Done ctx0 (env0\<lparr>fired := {0}\<rparr>)"
    by (simp add: no_opts_def Done_def ctx0_def)
  have q: "GetQueueLength ?run 0 = Ok 0" by (simp add: after_start GetQueueLength_def)
  have 1: "Enqueue go_lib ''a'' (Some ok_work) no_opts ?new env0 = (Err ErrQueueNotRunning, ?new, env0)"
    using Enqueue_rejects [of ?new go_lib "''a''" "Some ok_work" no_opts env0] n by blast
  have 2: "Enqueue go_lib ''a'' (Some ok_work) no_opts ?old env0 = (Err ErrQueueNotRunning, ?old, env0)"
    using Enqueue_rejects [of ?old go_lib "''a''" "Some ok_work" no_opts env0] o by blast
  have 3: "Enqueue go_lib ''a'' (Some ok_work) (no_opts\<lparr>opt_expireTime := 999\<rparr>) ?run env0
             = (Err ErrQueueItemExpired, ?run, env0)"
    using Enqueue_rejects [of ?run go_lib "''a''" "Some ok_work" "no_opts\<lparr>opt_expireTime := 999\<rparr>" env0]
      r x by blast
  have 4: "Enqueue go_lib ''a'' (Some ok_work) (no_opts\<lparr>itemCtx := Some ctx0\<rparr>) ?run (env0\<lparr>fired := {0}\<rparr>)
             = (Err ErrQueueItemCancelled, ?run, env0\<lparr>fired := {0}\<rparr>)"
    using Enqueue_rejects [of ?run go_lib "''a''" "Some ok_work" "no_opts\<lparr>itemCtx := Some ctx0\<rparr>"
        "env0\<lparr>fired := {0}\<rparr>" ctx0] r c by blast
  show ?thesis using 1 2 3 4 q by simp
qed

section \<open>The metadata of an admitted task is a copy\<close>

lemma admit_copies:
  assumes "admit L k f options p e = (Ok (i, item), p1, e1)"
    and "opt_metadata options = Some a"
  shows "metadata item = Some (nextAddr e) \<and> heap e1 = (heap e)(nextAddr e \<mapsto> deref e a)
         \<and> key item = k \<and> fn item = f"
  using assms
  by (auto simp: admit_def make_map_def Let_def case_prod_beta split: if_splits sum.splits prod.splits)

lemma deliver_appends:
  assumes "deliver i item p = (Ok j, p1)"
  shows "j = i \<and> 0 \<le> i \<and> nat i < length (workers p)
         \<and> buf (queue (workers p1 ! nat i)) = buf (queue (workers p ! nat i)) @ [item]"
  using assms
  by (auto simp: deliver_def send_def Let_def split: if_splits outcome.splits)

text \<open>
  Claim C10. A successful \<open>Enqueue\<close> with a metadata map at address \<open>a\<close> puts into the
  buffer an item whose metadata is a new map at another address, with the content the
  caller's map had at admission. Whatever the caller stores at \<open>a\<close> afterwards, the map of
  the item, and what the worker attaches to the context from it, stay the same. The
  addresses below \<open>nextAddr\<close> are the ones in use.
\<close>

theorem Enqueue_copies_metadata:
  assumes "Enqueue L k f options p e = (Ok i, p1, e1)"
    and "opt_metadata options = Some a"
    and "a < nextAddr e"
  shows "metadata (last (buf (queue (workers p1 ! nat i)))) = Some (nextAddr e)
       \<and> nextAddr e \<noteq> a
       \<and> deref e1 (nextAddr e) = deref e a
       \<and> deref (e1\<lparr>heap := (heap e1)(a \<mapsto> m)\<rparr>) (nextAddr e) = deref e a
       \<and> project (last (buf (queue (workers p1 ! nat i)))) (e1\<lparr>heap := (heap e1)(a \<mapsto> m)\<rparr>)
           = project (last (buf (queue (workers p1 ! nat i)))) e1"
proof -
  obtain r p2 e2 where ad: "admit L k f options p e = (r, p2, e2)"
    by (cases "admit L k f options p e") auto
  from assms(1) ad obtain wi item where r: "r = Ok (wi, item)"
    by (cases r) (auto simp: Enqueue_def)
  from assms(1) ad r have dl: "deliver wi item p2 = (Ok i, p1)" and e: "e2 = e1"
    by (auto simp: Enqueue_def case_prod_beta intro: prod_eqI)
  from admit_copies [OF ad [unfolded r] assms(2)]
  have md: "metadata item = Some (nextAddr e)" and hp: "heap e1 = (heap e)(nextAddr e \<mapsto> deref e a)"
    using e by simp_all
  from deliver_appends [OF dl]
  have lst: "last (buf (queue (workers p1 ! nat i))) = item" by simp
  have ne: "nextAddr e \<noteq> a" using assms(3) by simp
  show ?thesis
    using md hp lst ne by (simp add: deref_def project_def split: option.splits)
qed

text \<open>
  The caller's map holds \<open>user = alice\<close>; the item gets a map at address 1 that still says
  so after the caller has written \<open>user = mallory\<close> into its own map.
\<close>

theorem Enqueue_copies_metadata_witness:
  "fst (Enqueue go_lib ''a'' (Some ok_work) meta_opts (pool (after [CallStart])) env1) = Ok 0
   \<and> metadata (last (buf (queue (workers
         (fst (snd (Enqueue go_lib ''a'' (Some ok_work) meta_opts (pool (after [CallStart])) env1))) ! 0))))
       = Some 1
   \<and> deref (snd (snd (Enqueue go_lib ''a'' (Some ok_work) meta_opts (pool (after [CallStart])) env1))) 1
       = [''user'' \<mapsto> VStr ''alice'']
   \<and> deref ((snd (snd (Enqueue go_lib ''a'' (Some ok_work) meta_opts (pool (after [CallStart])) env1)))
             \<lparr>heap := (heap (snd (snd (Enqueue go_lib ''a'' (Some ok_work) meta_opts
                          (pool (after [CallStart])) env1))))(0 \<mapsto> [''user'' \<mapsto> VStr ''mallory''])\<rparr>) 1
       = [''user'' \<mapsto> VStr ''alice'']"
proof -
  let ?p = "pool (after [CallStart])"
  let ?E = "Enqueue go_lib ''a'' (Some ok_work) meta_opts ?p env1"
  have r: "fst ?E = Ok 0"
    by (simp add: after_start Enqueue_def meta_opts_def env1_def env0_def no_opts_def engine_defs)
  have h1: "?E = (Ok 0, fst (snd ?E), snd (snd ?E))"
    using r by (metis prod.collapse)
  have h2: "opt_metadata meta_opts = Some 0" by (simp add: meta_opts_def)
  have h3: "0 < nextAddr env1" by (simp add: env1_def)
  have n: "nextAddr env1 = 1" "deref env1 0 = [''user'' \<mapsto> VStr ''alice'']"
    by (simp_all add: env1_def deref_def)
  show ?thesis
    using Enqueue_copies_metadata [OF h1 h2 h3, of "[''user'' \<mapsto> VStr ''mallory'']"] r n
    by simp
qed

section \<open>What a recovered panic leaves in the metadata\<close>

lemma with_metadata_key:
  "GetMetadata (with_metadata c md) k
     = (case md k of Some v \<Rightarrow> Some v | None \<Rightarrow> GetMetadata c k)"
  by (simp add: GetMetadata_def with_metadata_def MetadataKey_def split: option.splits)

lemma with_metadata_other:
  "take 9 ck \<noteq> ''metadata:'' \<Longrightarrow> vals (with_metadata c md) ck = vals c ck"
  by (simp add: with_metadata_def)

lemma project_heap: "heap e1 = heap e \<Longrightarrow> project item e1 = project item e"
  by (simp add: project_def deref_def split: option.splits)

lemma project_logf [simp]: "project item (logf l e) = project item e"
  by (rule project_heap) (simp add: logf_def)

lemma project_logs [simp]: "project item (e\<lparr>logs := x\<rparr>) = project item e"
  by (rule project_heap) simp

lemma project_fields [simp]:
  "key (project item e) = key item" "fn (project item e) = fn item"
  "metadata (project item e) = metadata item"
  by (simp_all add: project_def split: option.splits)

lemma log_call_returns:
  "logger_returns w \<Longrightarrow> log_call w l e = (None, logf l e)"
  by (auto simp: logger_returns_def log_call_def)

lemma logger_returns_logger:
  "logger_returns w \<Longrightarrow> logger w \<noteq> None"
  by (auto simp: logger_returns_def)

lemma log_call_frame [simp]:
  "now (snd (log_call w l e)) = now e" "fired (snd (log_call w l e)) = fired e"
  "events (snd (log_call w l e)) = events e" "heap (snd (log_call w l e)) = heap e"
  "stack (snd (log_call w l e)) = stack e"
  by (simp_all add: log_call_def logf_def split: option.splits work_result.splits)

lemma safeExecute_returns:
  assumes "logger_returns w"
    and "call (fn item) (ctx (project item e)) = Returned"
  shows "safeExecute L w item e =
           (Inr (False, None), project item e,
            emit (Invoked (id_w w) (project item e)) (logf (ExecutingTask (id_w w) (key item)) e))"
  using assms by (simp add: safeExecute_def log_call_returns Let_def)


text \<open>
  Whenever \<open>safeExecute\<close> returns with \<open>recovered = true\<close>, whatever the logger and
  the handler did on the way, the metadata map of the item holds the five entries for the
  recovered value, and every key it held before.
\<close>

lemma recovered_with_fields:
  assumes "recovered_with L w item r e = (Inr res, item1, e1)"
  shows "\<exists>a m. res = (True, Some r) \<and> metadata item1 = Some a \<and> heap e1 a = Some m
         \<and> m ''panic_recovered'' = Some (VBool True)
         \<and> m ''panic_value'' = Some (VStr (Sprintf_v L r))
         \<and> m ''panic_time'' = Some (VTime (now e))
         \<and> m ''worker_id'' = Some (VInt (id_w w))
         \<and> m ''stack_trace'' = Some (VStr (stack e))
         \<and> (metadata item = None \<or> metadata item = Some a)
         \<and> dom (case metadata item of None \<Rightarrow> Map.empty | Some a0 \<Rightarrow> deref e a0) \<subseteq> dom m"
  using assms
  by (auto simp: recovered_with_def log_call_def Let_def case_prod_beta emit_def logf_def
        store_def make_map_def deref_def
      split: option.splits work_result.splits if_splits prod.splits)

lemma safeExecute_recovered_fields:
  assumes "safeExecute L w item e = (Inr (True, rv), item1, e1)"
  shows "\<exists>r a m. rv = Some r \<and> metadata item1 = Some a \<and> heap e1 a = Some m
         \<and> m ''panic_recovered'' = Some (VBool True)
         \<and> m ''panic_value'' = Some (VStr (Sprintf_v L r))
         \<and> m ''panic_time'' = Some (VTime (now e))
         \<and> m ''worker_id'' = Some (VInt (id_w w))
         \<and> m ''stack_trace'' = Some (VStr (stack e))
         \<and> (metadata item = None \<or> metadata item = Some a)
         \<and> dom (case metadata item of None \<Rightarrow> Map.empty | Some a0 \<Rightarrow> deref e a0) \<subseteq> dom m"
proof -
  obtain x e0 where lc: "log_call w (ExecutingTask (id_w w) (key item)) e = (x, e0)"
    by (cases "log_call w (ExecutingTask (id_w w) (key item)) e") auto
  have fr: "now e0 = now e" "heap e0 = heap e" "stack e0 = stack e"
    using log_call_frame [of w "ExecutingTask (id_w w) (key item)" e] lc by simp_all
  have dr: "\<And>a0. deref e0 a0 = deref e a0" using fr(2) by (simp add: deref_def)
  show ?thesis
  proof (cases x)
    case (Some p)
    then have "recovered_with L w item (panic_value p) e0 = (Inr (True, rv), item1, e1)"
      using assms lc by (simp add: safeExecute_def)
    from recovered_with_fields [OF this] show ?thesis
      using fr dr by auto
  next
    case None
    let ?i = "project item e0"
    let ?e = "emit (Invoked (id_w w) ?i) e0"
    have fe: "now ?e = now e" "stack ?e = stack e" "\<And>a0. deref ?e a0 = deref e a0"
      using fr by (simp_all add: emit_def deref_def)
    obtain r where "recovered_with L w ?i r ?e = (Inr (True, rv), item1, e1)"
      using assms lc None
      by (cases "call (fn ?i) (ctx ?i)") (auto simp: safeExecute_def Let_def)
    from recovered_with_fields [OF this] show ?thesis
      using fe by auto
  qed
qed

text \<open>
  Claim C3, as the code has it. The unit of work panics with value \<open>r\<close>, and the recovery
  runs to its end: the calls of the logger return and so does the call of the fault
  handler. Then \<open>safeExecute\<close> returns \<open>(true, r)\<close> and the metadata map of the item holds
  \<open>panic_recovered = true\<close>, \<open>panic_value\<close>, \<open>panic_time\<close>, \<open>worker_id\<close> and the
  stack trace under \<open>stack_trace\<close>, which is not empty when the trace the runtime returns
  is not. The map is the one the item had (a new one if it had none), and every key it
  held before is still a key of it.
\<close>

theorem safeExecute_records_panic:
  assumes "call (fn item) (ctx (project item e)) = Panicked r"
    and "stack e \<noteq> []"
    and "logger_returns w"
    and "(case panicHandler w of Some h \<Rightarrow> h | None \<Rightarrow> DefaultPanicHandler)
           (project item e) r (stack e) = Returned"
  shows "\<exists>item1 e1 a m st.
           safeExecute L w item e = (Inr (True, Some r), item1, e1)
         \<and> metadata item1 = Some a \<and> heap e1 a = Some m
         \<and> m ''panic_recovered'' = Some (VBool True)
         \<and> m ''panic_value'' = Some (VStr (Sprintf_v L r))
         \<and> m ''panic_time'' = Some (VTime (now e))
         \<and> m ''worker_id'' = Some (VInt (id_w w))
         \<and> m ''stack_trace'' = Some (VStr st) \<and> st \<noteq> []
         \<and> (metadata item = None \<or> metadata item = Some a)
         \<and> dom (case metadata item of None \<Rightarrow> Map.empty | Some a0 \<Rightarrow> deref e a0) \<subseteq> dom m"
  using assms
  by (auto simp: safeExecute_def recovered_with_def log_call_returns logger_returns_logger
        Let_def case_prod_beta emit_def logf_def store_def make_map_def deref_def
      split: option.splits)

text \<open>
  A task with metadata \<open>user = alice\<close> panics with \<open>boom\<close> on worker 0, which has the
  logger and the handler that \<open>NewPool\<close> gave it.
\<close>

theorem safeExecute_records_panic_witness:
  "fst (safeExecute go_lib worker0 faulty_item env1) = Inr (True, Some (VStr ''boom''))
   \<and> metadata (fst (snd (safeExecute go_lib worker0 faulty_item env1))) = Some 0
   \<and> heap (snd (snd (safeExecute go_lib worker0 faulty_item env1))) 0
       = Some [''user'' \<mapsto> VStr ''alice'', ''panic_recovered'' \<mapsto> VBool True,
               ''panic_value'' \<mapsto> VStr ''boom'', ''panic_time'' \<mapsto> VTime 1000,
               ''worker_id'' \<mapsto> VInt 0, ''stack_trace'' \<mapsto> VStr ''goroutine 7 [running]:'']
   \<and> (\<exists>item1 e1 a m st.
         safeExecute go_lib worker0 faulty_item env1 = (Inr (True, Some (VStr ''boom'')), item1, e1)
       \<and> metadata item1 = Some a \<and> heap e1 a = Some m
       \<and> m ''panic_recovered'' = Some (VBool True)
       \<and> m ''stack_trace'' = Some (VStr st) \<and> st \<noteq> []
       \<and> dom (deref env1 0) \<subseteq> dom m)"
proof -
  have h1: "call (fn faulty_item) (ctx (project faulty_item env1)) = Panicked (VStr ''boom'')"
    by (simp add: faulty_item_def task_of_def call_def bad_work_def project_def)
  have h2: "stack env1 \<noteq> []" by (simp add: env1_def env0_def)
  have h3: "logger_returns worker0"
    by (simp add: logger_returns_def worker0_def new_worker_def NewDefaultLogger_def)
  have h4: "(case panicHandler worker0 of Some h \<Rightarrow> h | None \<Rightarrow> DefaultPanicHandler)
              (project faulty_item env1) (VStr ''boom'') (stack env1) = Returned"
    by (simp add: worker0_def new_worker_def DefaultPanicHandler_def)
  have md: "metadata faulty_item = Some 0" by (simp add: faulty_item_def)
  have ev: "fst (safeExecute go_lib worker0 faulty_item env1) = Inr (True, Some (VStr ''boom''))
   \<and> metadata (fst (snd (safeExecute go_lib worker0 faulty_item env1))) = Some 0
   \<and> heap (snd (snd (safeExecute go_lib worker0 faulty_item env1))) 0
       = Some [''user'' \<mapsto> VStr ''alice'', ''panic_recovered'' \<mapsto> VBool True,
               ''panic_value'' \<mapsto> VStr ''boom'', ''panic_time'' \<mapsto> VTime 1000,
               ''worker_id'' \<mapsto> VInt 0, ''stack_trace'' \<mapsto> VStr ''goroutine 7 [running]:'']"
    by (simp add: faulty_item_def task_of_def bad_work_def ctx0_def worker0_def env1_def env0_def
        with_metadata_def engine_defs)
  from safeExecute_records_panic [OF h1 h2 h3 h4, of go_lib]
  obtain item1 e1 a m st where
    "safeExecute go_lib worker0 faulty_item env1 = (Inr (True, Some (VStr ''boom'')), item1, e1)"
    "metadata item1 = Some a" "heap e1 a = Some m"
    "m ''panic_recovered'' = Some (VBool True)"
    "m ''stack_trace'' = Some (VStr st)" "st \<noteq> []"
    "dom (deref env1 0) \<subseteq> dom m"
    unfolding md by auto
  then show ?thesis using ev by blast
qed

text \<open>
  Claim C3 as stated names the fields \<open>fault_recovered\<close>, \<open>fault_value\<close> and
  \<open>fault_time\<close>. After the recovered panic of the task above the metadata has no entry
  under any of these keys; the flag is under \<open>panic_recovered\<close>.
\<close>

theorem safeExecute_fault_keys_counterexample:
  "fst (safeExecute go_lib worker0 faulty_item env1) = Inr (True, Some (VStr ''boom''))
   \<and> metadata (fst (snd (safeExecute go_lib worker0 faulty_item env1))) = Some 0
   \<and> deref (snd (snd (safeExecute go_lib worker0 faulty_item env1))) 0 ''fault_recovered'' = None
   \<and> deref (snd (snd (safeExecute go_lib worker0 faulty_item env1))) 0 ''fault_value'' = None
   \<and> deref (snd (snd (safeExecute go_lib worker0 faulty_item env1))) 0 ''fault_time'' = None
   \<and> deref (snd (snd (safeExecute go_lib worker0 faulty_item env1))) 0 ''panic_recovered''
       = Some (VBool True)"
  by (simp add: faulty_item_def task_of_def bad_work_def ctx0_def worker0_def env1_def env0_def
        with_metadata_def engine_defs)

section \<open>The worker after a task\<close>

lemma set_queue_simps [simp]:
  "world (set_queue i q s) = world s"
  "loops (set_queue i q s) = loops s"
  "tasks (set_queue i q s) = tasks s"
  "crashed (set_queue i q s) = crashed s"
  "callers (set_queue i q s) = callers s"
  "returned (set_queue i q s) = returned s"
  "stopping (set_queue i q s) = stopping s"
  "length (workers (pool (set_queue i q s))) = length (workers (pool s))"
  by (simp_all add: set_queue_def)

lemma set_queue_nth [simp]:
  "i < length (workers (pool s)) \<Longrightarrow>
     workers (pool (set_queue i q s)) ! i = (workers (pool s) ! i)\<lparr>queue := q\<rparr>"
  by (simp add: set_queue_def)

lemma recv_head [simp]:
  "buf c = item # q \<Longrightarrow> recv c = Some (item, c\<lparr>buf := q\<rparr>)"
  by (simp add: recv_def)

lemma recovered_with_clock [simp]:
  "now (snd (snd (recovered_with L w item r e))) = now e"
  "fired (snd (snd (recovered_with L w item r e))) = fired e"
  by (simp_all add: recovered_with_def log_call_def Let_def case_prod_beta emit_def logf_def
        store_def make_map_def split: work_result.splits option.splits)

lemma safeExecute_clock [simp]:
  "now (snd (snd (safeExecute L w item e))) = now e"
  "fired (snd (snd (safeExecute L w item e))) = fired e"
proof -
  obtain x e1 where lc: "log_call w (ExecutingTask (id_w w) (key item)) e = (x, e1)"
    by (cases "log_call w (ExecutingTask (id_w w) (key item)) e") auto
  have e1: "now e1 = now e" "fired e1 = fired e"
    using log_call_frame(1,2) [of w "ExecutingTask (id_w w) (key item)" e] lc by simp_all
  show "now (snd (snd (safeExecute L w item e))) = now e"
    using e1 by (cases x; cases "call (fn (project item e1)) (ctx (project item e1))")
      (simp_all add: safeExecute_def lc Let_def emit_def)
  show "fired (snd (snd (safeExecute L w item e))) = fired e"
    using e1 by (cases x; cases "call (fn (project item e1)) (ctx (project item e1))")
      (simp_all add: safeExecute_def lc Let_def emit_def)
qed

lemma report_clock [simp]:
  "now (snd (report w item r e)) = now e" "fired (snd (report w item r e)) = fired e"
  "events (snd (report w item r e)) = events e" "heap (snd (report w item r e)) = heap e"
  by (simp_all add: report_def)

lemma run_and_report_clock [simp]:
  "now (snd (run_and_report L w item e)) = now e"
  "fired (snd (run_and_report L w item e)) = fired e"
proof -
  obtain x item1 e1 where X: "safeExecute L w item e = (x, item1, e1)"
    by (cases "safeExecute L w item e") auto
  have e1: "now e1 = now e" "fired e1 = fired e"
    using safeExecute_clock [of L w item e] X by simp_all
  show "now (snd (run_and_report L w item e)) = now e"
    using e1 by (cases x) (simp_all add: run_and_report_def X)
  show "fired (snd (run_and_report L w item e)) = fired e"
    using e1 by (cases x) (simp_all add: run_and_report_def X)
qed

lemma handled_clock [simp]:
  "now (handled L w ph item e) = now e" "fired (handled L w ph item e) = fired e"
  by (simp_all add: handled_def)

lemma log_call_worker:
  "logger w1 = logger w \<Longrightarrow> log_call w1 l e = log_call w l e"
  by (simp add: log_call_def)

lemma recovered_with_worker:
  "id_w w1 = id_w w \<Longrightarrow> panicHandler w1 = panicHandler w \<Longrightarrow> logger w1 = logger w \<Longrightarrow>
     recovered_with L w1 item r e = recovered_with L w item r e"
  by (simp add: recovered_with_def log_call_worker [of w1 w] Let_def
      cong: prod.case_cong option.case_cong work_result.case_cong if_cong)

lemma safeExecute_worker:
  "id_w w1 = id_w w \<Longrightarrow> panicHandler w1 = panicHandler w \<Longrightarrow> logger w1 = logger w \<Longrightarrow>
     safeExecute L w1 item e = safeExecute L w item e"
  by (simp add: safeExecute_def recovered_with_worker [of w1 w] log_call_worker [of w1 w] Let_def
      cong: prod.case_cong option.case_cong work_result.case_cong if_cong)

lemma report_worker:
  "id_w w1 = id_w w \<Longrightarrow> logger w1 = logger w \<Longrightarrow> report w1 item r e = report w item r e"
  by (simp add: report_def log_call_worker [of w1 w])

lemma provisos_queue [simp]:
  "logger_returns (w\<lparr>queue := c\<rparr>) = logger_returns w"
  "handler_returns (w\<lparr>queue := c\<rparr>) = handler_returns w"
  by (simp_all add: logger_returns_def handler_returns_def)

text \<open>When the logger and the handler return, \<open>safeExecute\<close> returns.\<close>

lemma recovered_with_returns:
  assumes "logger_returns w" and "handler_returns w"
  shows "\<exists>item1 e1. recovered_with L w item r e = (Inr (True, Some r), item1, e1)"
  using assms(2) logger_returns_logger [OF assms(1)]
  by (simp add: recovered_with_def log_call_returns [OF assms(1)] handler_returns_def
        Let_def case_prod_beta)

lemma safeExecute_total:
  assumes "logger_returns w" and "handler_returns w"
  shows "\<exists>r item1 e1. safeExecute L w item e = (Inr r, item1, e1)"
proof (cases "call (fn (project item e)) (ctx (project item e))")
  case Returned
  then show ?thesis
    by (auto simp: safeExecute_def log_call_returns [OF assms(1)] Let_def)
next
  case (Panicked r)
  obtain item1 e1 where
    "recovered_with L w (project item e) r
       (emit (Invoked (id_w w) (project item e)) (logf (ExecutingTask (id_w w) (key item)) e))
     = (Inr (True, Some r), item1, e1)"
    using recovered_with_returns [OF assms, of L] by blast
  then show ?thesis
    using Panicked by (auto simp: safeExecute_def log_call_returns [OF assms(1)] Let_def)
qed

lemma report_returns:
  "logger_returns w \<Longrightarrow> fst (report w item r e) = None"
  by (simp add: report_def log_call_returns)

lemma run_and_report_returns:
  assumes "logger_returns w" and "handler_returns w"
  shows "fst (run_and_report L w item e) = None"
proof -
  obtain r item1 e1 where "safeExecute L w item e = (Inr r, item1, e1)"
    using safeExecute_total [OF assms] by blast
  then show ?thesis
    by (simp add: run_and_report_def report_returns [OF assms(1)])
qed







lemma handled_queue [simp]:
  "handled L (w\<lparr>queue := c\<rparr>) ph item e = handled L w ph item e"
  by (simp add: handled_def run_and_report_def
        safeExecute_worker [of "w\<lparr>queue := c\<rparr>" w] report_worker [of "w\<lparr>queue := c\<rparr>" w]
      cong: prod.case_cong sum.case_cong)





text \<open>
  The two ways in which the recovery itself ends the process: the fault handler panics, or
  the worker has no logger. In the second the unit of work is not even invoked.
\<close>

lemma safeExecute_handler_panics:
  assumes "logger_returns w"
    and "call (fn item) (ctx (project item e)) = Panicked r"
    and "(case panicHandler w of Some h \<Rightarrow> h | None \<Rightarrow> DefaultPanicHandler)
           (project item e) r (stack e) = Panicked v"
  shows "fst (safeExecute L w item e) = Inl (Raised v)"
  using assms logger_returns_logger [OF assms(1)]
  by (simp add: safeExecute_def recovered_with_def log_call_returns Let_def emit_def logf_def)

lemma safeExecute_nil_logger:
  assumes "logger w = None"
  shows "fst (safeExecute L w item e) = Inl NilDereference"
    and "events (snd (snd (safeExecute L w item e))) = events e"
  using assms by (simp_all add: safeExecute_def recovered_with_def log_call_def)

text \<open>
  When the logger and the fault handler of every worker return, no step of a worker or of
  a task goroutine makes the process panic, whatever the units of work do. A worker's loop
  returns in one way only, by a turn of the drain loop that finds its buffer empty.
\<close>

lemma worker_steps_never_panic:
  assumes "step L a s = Some s1"
    and "a = Receive i \<or> a = StopSignal i \<or> a = Drain i \<or> a = RunTask i
         \<or> a = TaskDone i \<or> a = CtxDone i"
    and "\<forall>w \<in> set (workers (pool s)). logger_returns w \<and> handler_returns w"
  shows "crashed s1 = crashed s"
proof -
  have ok: "\<And>j. j < length (workers (pool s)) \<Longrightarrow>
      logger_returns (workers (pool s) ! j) \<and> handler_returns (workers (pool s) ! j)"
    using assms(3) by simp
  have rr: "\<And>j item e x e1. j < length (workers (pool s)) \<Longrightarrow>
      run_and_report L (workers (pool s) ! j) item e \<noteq> (Some x, e1)"
    using ok run_and_report_returns by (metis fst_conv option.distinct(1))
  have se: "\<And>j item e. j < length (workers (pool s)) \<Longrightarrow>
      \<exists>r item1 e1. safeExecute L (workers (pool s) ! j) item e = (Inr r, item1, e1)"
    using ok safeExecute_total by blast
  have lc: "\<And>j l e. j < length (workers (pool s)) \<Longrightarrow>
      log_call (workers (pool s) ! j) l e = (None, logf l e)"
    using ok log_call_returns by blast
  consider (r) "a = Receive i" | (s) "a = StopSignal i" | (d) "a = Drain i"
    | (t) "a = RunTask i" | (td) "a = TaskDone i" | (c) "a = CtxDone i"
    using assms(2) by blast
  then show ?thesis
  proof cases
    case r
    then show ?thesis
      using assms(1) rr [of i] lc [of i]
      by (auto simp: worker_receive_def dequeue_steady_def goes_on_def live_def Let_def
            split: if_splits option.splits dequeued.splits prod.splits)
  next
    case s
    then show ?thesis
      using assms(1) lc [of i]
      by (auto simp: worker_stop_signal_def live_def Let_def split: if_splits)
  next
    case d
    then show ?thesis
      using assms(1) rr [of i] lc [of i]
      by (auto simp: worker_drain_def dequeue_drain_def live_def Let_def
            split: if_splits option.splits prod.splits)
  next
    case t
    then show ?thesis
      using assms(1) se [of "t_worker (tasks s ! i)" "t_item (tasks s ! i)" "world s"]
      by (auto simp: run_task_def Let_def split: if_splits)
  next
    case td
    then show ?thesis
      using assms(1) lc [of i]
      by (auto simp: worker_task_done_def report_def live_def
            split: if_splits option.splits phase.splits)
  next
    case c
    then show ?thesis
      using assms(1) lc [of i]
      by (auto simp: worker_ctx_done_def cancelled_during_def live_def
            split: if_splits option.splits phase.splits)
  qed
qed

lemma loop_returns_only_when_drained:
  assumes "step L a s = Some s1" and "live i s"
    and "loops s ! i \<noteq> Stopped" and "loops s1 ! i = Stopped"
  shows "a = Drain i \<and> loops s ! i = Draining \<and> buf (queue (workers (pool s) ! i)) = []
         \<and> \<not> closed (queue (workers (pool s) ! i))"
proof (cases a)
  case CallStart
  then show ?thesis using assms by (auto simp: Start_def Let_def live_def split: if_splits)
next
  case StopBegin
  then show ?thesis using assms by (auto simp: Stop_begin_def Let_def split: if_splits sum.splits)
next
  case StopEnd
  then show ?thesis using assms by (auto simp: Stop_end_def Let_def split: if_splits sum.splits)
next
  case (EnqueueBegin k f options)
  then show ?thesis using assms
    by (auto simp: Enqueue_begin_def split: if_splits prod.splits outcome.splits)
next
  case (EnqueueSend n)
  then show ?thesis using assms
    by (auto simp: Enqueue_send_def split: if_splits option.splits prod.splits outcome.splits)
next
  case (Receive j)
  then show ?thesis using assms
    by (auto simp: worker_receive_def Let_def live_def nth_list_update
          split: if_splits option.splits dequeued.splits)
next
  case (StopSignal j)
  then show ?thesis using assms
    by (auto simp: worker_stop_signal_def Let_def live_def nth_list_update
          split: if_splits option.splits prod.splits)
next
  case (Drain j)
  then show ?thesis using assms
    by (auto simp: worker_drain_def Let_def live_def nth_list_update recv_def
          split: if_splits option.splits list.splits prod.splits)
next
  case (RunTask g)
  then show ?thesis using assms
    by (auto simp: run_task_def Let_def split: if_splits prod.splits sum.splits)
next
  case (TaskDone j)
  then show ?thesis using assms
    by (auto simp: worker_task_done_def live_def nth_list_update
          split: if_splits option.splits phase.splits prod.splits)
next
  case (CtxDone j)
  then show ?thesis using assms
    by (auto simp: worker_ctx_done_def live_def nth_list_update
          split: if_splits option.splits phase.splits prod.splits)
next
  case (Fire c)
  then show ?thesis using assms by auto
next
  case (Advance t)
  then show ?thesis using assms by (auto split: if_splits)
qed




text \<open>The same two tasks when the stop signal has been given: the drain loop runs both.\<close>

lemma fault_isolated_draining:
  "events (world (the (run go_lib [Drain 0, Drain 0]
       (after (faulty_schedule @ [StopBegin, StopSignal 0])))))
     = [Invoked 0 (task_of ''a'' bad_work None 1000),
        Handled DefaultPanicHandler 0 ''a'' (VStr ''boom'') ''goroutine 7 [running]:'',
        Invoked 0 (task_of ''b'' ok_work None 1000)]
   \<and> loops (the (run go_lib [Drain 0, Drain 0]
       (after (faulty_schedule @ [StopBegin, StopSignal 0]))))
     = [Draining]"
  by (simp add: after_def faulty_schedule_def env0_def no_opts_def task_of_def bad_work_def
        ok_work_def engine_defs)

text \<open>
  A worker without a logger. Line 139 tests the logger for \<^verbatim>\<open>nil\<close>; lines 142 and 162
  call it without the test. After \<^verbatim>\<open>SetLogger(nil)\<close> the call at line 162 panics before
  the unit of work is invoked, the panic is recovered, and the call at line 142 panics in
  the deferred function: the process ends on the first task the worker receives, also when
  its unit of work would have returned.
\<close>

lemma nil_logger_ends_process:
  "map_option crashed
      (run go_lib [CallStart, EnqueueBegin ''b'' (Some ok_work) no_opts, EnqueueSend 0, Receive 0]
         (boot (SetLogger None (fst (NewPool 1 100 KeyBased))) env0))
     = Some [NilDereference]
   \<and> map_option (events \<circ> world)
      (run go_lib [CallStart, EnqueueBegin ''b'' (Some ok_work) no_opts, EnqueueSend 0, Receive 0]
         (boot (SetLogger None (fst (NewPool 1 100 KeyBased))) env0))
     = Some []"
  by (simp add: env0_def no_opts_def task_of_def ok_work_def engine_defs)

section \<open>Validation at dequeue\<close>

text \<open>
  Claim C5. Worker \<open>i\<close> stands at its outer \<^verbatim>\<open>select\<close> or in its drain loop and the task
  at the head of its buffer is expired or cancelled, as \<open>IsExpired\<close> and \<open>IsCancelled\<close>
  tell at that moment. The worker takes the task out of the buffer: no unit of work is
  invoked, no handler is called, no goroutine is started and no map is written, whatever
  the logger does. At the outer \<^verbatim>\<open>select\<close> one line is logged, the one for expiry if
  the task is expired, whether or not it is cancelled too, and else the one for
  cancellation; the drain loop logs nothing. The worker goes on, the process not having
  panicked, in the drain loop always and at the outer \<^verbatim>\<open>select\<close> when the call of the
  logger returns.
\<close>

theorem dequeue_validation:
  assumes "crashed s = []" and "live i s"
    and "loops s ! i = Idle \<or> loops s ! i = Draining"
    and "buf (queue (workers (pool s) ! i)) = item # rest"
    and "IsExpired item (world s) \<or> IsCancelled item (world s)"
  shows "\<exists>s1. run L [if loops s ! i = Idle then Receive i else Drain i] s = Some s1
          \<and> events (world s1) = events (world s)
          \<and> heap (world s1) = heap (world s)
          \<and> tasks s1 = tasks s
          \<and> loops s1 = loops s
          \<and> buf (queue (workers (pool s1) ! i)) = rest
          \<and> (loops s ! i = Draining \<or> logger_returns (workers (pool s) ! i) \<longrightarrow>
                crashed s1 = []
              \<and> logs (world s1)
                  = logs (world s) @
                    (if loops s ! i = Draining then []
                     else if IsExpired item (world s) then
                       [SkippingExpired (id_w (workers (pool s) ! i)) (key item) (GetAge item (world s))]
                     else [SkippingCancelled (id_w (workers (pool s) ! i)) (key item)]))"
proof -
  let ?w = "workers (pool s) ! i"
  have lw: "i < length (workers (pool s))" using assms(2) by (simp add: live_def)
  show ?thesis
  proof (cases "loops s ! i = Idle")
    case True
    let ?l = "if IsExpired item (world s)
              then SkippingExpired (id_w ?w) (key item) (GetAge item (world s))
              else SkippingCancelled (id_w ?w) (key item)"
    obtain x e1 where lc: "log_call ?w ?l (world s) = (x, e1)"
      by (cases "log_call ?w ?l (world s)") auto
    have fr: "events e1 = events (world s)" "heap e1 = heap (world s)"
      using log_call_frame(3,4) [of ?w ?l "world s"] lc by simp_all
    have ds: "dequeue_steady L ?w item (world s) = goes_on (x, e1)"
      using assms(5) lc by (auto simp: dequeue_steady_def)
    have ok: "logger_returns ?w \<Longrightarrow> x = None \<and> e1 = logf ?l (world s)"
      using lc log_call_returns [of ?w ?l "world s"] by simp
    show ?thesis
    proof (cases x)
      case None
      have "logs e1 = logs (world s) @ [?l]"
        using lc None
        by (auto simp: log_call_def logf_def split: option.splits work_result.splits)
      then show ?thesis
        using True assms(1,2,4) lw ds None fr
        by (simp add: worker_receive_def goes_on_def Let_def)
    next
      case (Some p)
      then have "\<not> logger_returns ?w" using ok by auto
      then show ?thesis
        using True assms(1,2,4) lw ds Some fr
        by (simp add: worker_receive_def goes_on_def Let_def)
    qed
  next
    case False
    then have "loops s ! i = Draining" using assms(3) by simp
    then show ?thesis
      using assms(1,2,4,5) lw
      by (auto simp: worker_drain_def dequeue_drain_def Let_def)
  qed
qed

text \<open>
  A task whose expiration time has passed and whose handle has fired, at the outer
  \<^verbatim>\<open>select\<close> and in the drain loop, on a worker with the default logger.
\<close>

theorem dequeue_validation_witness:
  "events (world (the (run go_lib [Receive 0] (after stale_schedule)))) = []
   \<and> logs (world (the (run go_lib [Receive 0] (after stale_schedule))))
       = [SkippingExpired 0 ''a'' 1000]
   \<and> crashed (the (run go_lib [Receive 0] (after stale_schedule))) = []
   \<and> events (world (the (run go_lib [Drain 0] (after (stale_schedule @ [StopBegin, StopSignal 0]))))) = []
   \<and> buf (queue (workers (pool (the (run go_lib [Drain 0]
         (after (stale_schedule @ [StopBegin, StopSignal 0]))))) ! 0)) = []"
proof -
  let ?item = "\<lparr>key = ''a'', fn = Some ok_work, ctx = Some ctx0, metadata = None,
                 enqueueTime = 1000, expireTime = 1500\<rparr>"
  let ?s = "after stale_schedule"
  have a1: "crashed ?s = []" and a2: "live 0 ?s"
    and a3: "loops ?s ! 0 = Idle \<or> loops ?s ! 0 = Draining"
    and a4: "buf (queue (workers (pool ?s) ! 0)) = ?item # []"
    and a5: "IsExpired ?item (world ?s) \<or> IsCancelled ?item (world ?s)"
    by (simp_all add: after_stale live_def IsExpired_def env0_def)
  let ?d = "after (stale_schedule @ [StopBegin, StopSignal 0])"
  have d: "?d = (after stale_schedule)
      \<lparr>pool := (pool (after stale_schedule))
          \<lparr>workers := [(workers (pool (after stale_schedule)) ! 0)
                          \<lparr>stopSignal := \<lparr>buf = [], cap = 0, closed = True\<rparr>\<rparr>],
           mutex := True, isRunning := False\<rparr>,
       world := logf (DrainingQueue 0) (world (after stale_schedule)),
       loops := [Draining], stopping := True\<rparr>"
    by (simp add: after_def stale_schedule_def stale_opts_def env0_def ctx0_def engine_defs)
  have b1: "crashed ?d = []" and b2: "live 0 ?d"
    and b3: "loops ?d ! 0 = Idle \<or> loops ?d ! 0 = Draining"
    and b4: "buf (queue (workers (pool ?d) ! 0)) = ?item # []"
    and b5: "IsExpired ?item (world ?d) \<or> IsCancelled ?item (world ?d)"
    by (simp_all add: d after_stale live_def IsExpired_def env0_def logf_def)
  have i: "loops ?s ! 0 = Idle" by (simp add: after_stale)
  have j: "loops ?d ! 0 = Draining" by (simp add: d)
  have k: "IsExpired ?item (world ?s)" by (simp add: after_stale IsExpired_def env0_def)
  have g: "GetAge ?item (world ?s) = 1000" by (simp add: after_stale GetAge_def env0_def)
  have l: "logs (world ?s) = []" "events (world ?s) = []" "events (world ?d) = []"
    by (simp_all add: after_stale d env0_def logf_def)
  have w: "id_w (workers (pool ?s) ! 0) = 0" by (simp add: after_stale)
  have lr: "logger_returns (workers (pool ?s) ! 0)"
    by (simp add: after_stale logger_returns_def NewDefaultLogger_def)
  from dequeue_validation [OF a1 a2 a3 a4 a5, of go_lib]
       dequeue_validation [OF b1 b2 b3 b4 b5, of go_lib]
  show ?thesis
    unfolding i j using k g l w lr by auto
qed

text \<open>
  The same task on a worker without a logger: the call of line 50 panics and the process
  ends; the unit of work has not been invoked.
\<close>

lemma dequeue_validation_nil_logger:
  "map_option crashed
      (run go_lib (stale_schedule @ [Receive 0])
         (boot (SetLogger None (fst (NewPool 1 100 KeyBased))) env0))
     = Some [NilDereference]
   \<and> map_option (events \<circ> world)
      (run go_lib (stale_schedule @ [Receive 0])
         (boot (SetLogger None (fst (NewPool 1 100 KeyBased))) env0))
     = Some []"
  by (simp add: stale_schedule_def stale_opts_def env0_def ctx0_def engine_defs)

section \<open>Stop against a concurrent Enqueue\<close>

text \<open>
  When the send is over before \<^verbatim>\<open>Stop\<close> is called, the task is run by the drain loop
  before \<^verbatim>\<open>Stop\<close> closes the buffer and returns.
\<close>

lemma orderly_stop:
  "map_option returned (run go_lib orderly_schedule (boot (fst (NewPool 1 100 KeyBased)) env0))
     = Some [Ok 0]
   \<and> map_option (events \<circ> world)
        (run go_lib orderly_schedule (boot (fst (NewPool 1 100 KeyBased)) env0))
     = Some [Invoked 0 (task_of ''a'' ok_work None 1000)]
   \<and> map_option crashed (run go_lib orderly_schedule (boot (fst (NewPool 1 100 KeyBased)) env0))
     = Some []
   \<and> map_option (map (closed \<circ> queue) \<circ> workers \<circ> pool)
        (run go_lib orderly_schedule (boot (fst (NewPool 1 100 KeyBased)) env0))
     = Some [True]"
  by (simp add: orderly_schedule_def env0_def no_opts_def task_of_def ok_work_def engine_defs)

text \<open>
  Claim C2 fails on the code. \<^verbatim>\<open>Enqueue\<close> releases the mutex at line 246, before its
  send at line 288. In \<open>late_send_schedule\<close> a caller has passed the running check when
  \<^verbatim>\<open>Stop\<close> runs from its first line to its last; the caller's send then meets a closed
  channel and the process panics.
\<close>

theorem late_send_panics:
  "map_option crashed (run go_lib late_send_schedule (boot (fst (NewPool 1 100 KeyBased)) env0))
     = Some [SendOnClosedChannel]
   \<and> map_option returned (run go_lib late_send_schedule (boot (fst (NewPool 1 100 KeyBased)) env0))
     = Some []"
  by (simp add: late_send_schedule_def env0_def no_opts_def engine_defs)

text \<open>
  In \<open>stranded_schedule\<close> the send happens between the worker's return and the closing of
  the buffers: \<^verbatim>\<open>Enqueue\<close> returns the worker index, \<^verbatim>\<open>Stop\<close> returns, and the task
  stays in the buffer of a worker that has returned; its unit of work is never invoked.
\<close>

lemma stranded_task:
  "map_option returned (run go_lib stranded_schedule (boot (fst (NewPool 1 100 KeyBased)) env0))
     = Some [Ok 0]
   \<and> map_option (events \<circ> world) (run go_lib stranded_schedule (boot (fst (NewPool 1 100 KeyBased)) env0))
     = Some []
   \<and> map_option (map (length \<circ> buf \<circ> queue) \<circ> workers \<circ> pool)
        (run go_lib stranded_schedule (boot (fst (NewPool 1 100 KeyBased)) env0))
     = Some [1]
   \<and> map_option loops (run go_lib stranded_schedule (boot (fst (NewPool 1 100 KeyBased)) env0))
     = Some [Stopped]
   \<and> map_option (mutex \<circ> pool) (run go_lib stranded_schedule (boot (fst (NewPool 1 100 KeyBased)) env0))
     = Some False"
  by (simp add: stranded_schedule_def env0_def no_opts_def engine_defs)

section \<open>Order of execution for one key\<close>

text \<open>
  Every buffer is first-in first-out in every step of the machine: a step leaves it as it
  is, puts one item at its end, or takes the item at its head.
\<close>

lemma close_stopSignals_queue:
  "close_stopSignals ws = Inr ws1 \<Longrightarrow> map queue ws1 = map queue ws"
  by (induction ws arbitrary: ws1) (auto simp: close_chan_def split: sum.splits if_splits)

lemma close_queues_buf:
  "close_queues ws = Inr ws1 \<Longrightarrow> map (buf \<circ> queue) ws1 = map (buf \<circ> queue) ws"
  by (induction ws arbitrary: ws1) (auto simp: close_chan_def split: sum.splits if_splits)

lemma map_nth_eq:
  "map f xs = map f ys \<Longrightarrow> i < length ys \<Longrightarrow> f (xs ! i) = f (ys ! i)"
  by (metis length_map nth_map)

lemma buffer_discipline:
  assumes "step L a s = Some s1" and "i < length (workers (pool s))"
  shows "buf (queue (workers (pool s1) ! i)) = buf (queue (workers (pool s) ! i))
       \<or> (\<exists>x. buf (queue (workers (pool s1) ! i)) = buf (queue (workers (pool s) ! i)) @ [x])
       \<or> (\<exists>x. buf (queue (workers (pool s) ! i)) = x # buf (queue (workers (pool s1) ! i)))"
proof (cases a)
  case CallStart
  then show ?thesis using assms by (auto simp: Start_def Let_def split: if_splits)
next
  case StopBegin
  then show ?thesis using assms
    by (auto simp: Stop_begin_def Let_def split: if_splits sum.splits
          dest!: close_stopSignals_queue dest: map_nth_eq [where f = queue])
next
  case StopEnd
  then show ?thesis using assms
    by (auto simp: Stop_end_def Let_def split: if_splits sum.splits
          dest!: close_queues_buf dest: map_nth_eq [where f = "buf \<circ> queue"])
next
  case (EnqueueBegin k f options)
  then show ?thesis using assms
    by (auto simp: Enqueue_begin_def admit_def to_def Let_def case_prod_beta
          split: if_splits prod.splits outcome.splits sum.splits option.splits)
next
  case (EnqueueSend n)
  then show ?thesis using assms
    by (auto simp: Enqueue_send_def deliver_def send_def Let_def nth_list_update
          split: if_splits option.splits prod.splits outcome.splits)
next
  case (Receive j)
  then show ?thesis using assms
    by (auto simp: worker_receive_def set_queue_def recv_def Let_def live_def nth_list_update
          split: if_splits option.splits dequeued.splits list.splits)
next
  case (StopSignal j)
  then show ?thesis using assms
    by (auto simp: worker_stop_signal_def Let_def split: if_splits option.splits prod.splits)
next
  case (Drain j)
  then show ?thesis using assms
    by (auto simp: worker_drain_def set_queue_def recv_def Let_def live_def nth_list_update
          split: if_splits option.splits list.splits prod.splits)
next
  case (RunTask g)
  then show ?thesis using assms
    by (auto simp: run_task_def Let_def split: if_splits prod.splits sum.splits)
next
  case (TaskDone j)
  then show ?thesis using assms
    by (auto simp: worker_task_done_def split: if_splits option.splits phase.splits prod.splits)
next
  case (CtxDone j)
  then show ?thesis using assms
    by (auto simp: worker_ctx_done_def split: if_splits option.splits phase.splits prod.splits)
next
  case (Fire c)
  then show ?thesis using assms by auto
next
  case (Advance t)
  then show ?thesis using assms by (auto split: if_splits)
qed

text \<open>
  Without contexts the tasks of key \<open>a\<close> run on worker 0 and those of key \<open>b\<close> on
  worker 1, each in the order of admission.
\<close>

lemma five_tasks_in_order:
  "map_option returned (run go_lib five_task_schedule (boot (fst (NewPool 2 100 KeyBased)) env0))
     = Some [Ok 0, Ok 1, Ok 0, Ok 1, Ok 0]
   \<and> map_option (events \<circ> world)
        (run go_lib five_task_schedule (boot (fst (NewPool 2 100 KeyBased)) env0))
     = Some [Invoked 1 (task_of ''b'' ok_work (Some Background) 1001),
             Invoked 0 (task_of ''a'' ok_work (Some Background) 1000),
             Invoked 0 (task_of ''a'' ok_work (Some Background) 1002),
             Invoked 1 (task_of ''b'' ok_work (Some Background) 1003),
             Invoked 0 (task_of ''a'' ok_work (Some Background) 1004)]"
  by (simp add: five_task_schedule_def env0_def no_opts_def task_of_def ok_work_def
        engine_defs murmur3_Sum32_def fmix32_def mix_k_def rotl32_def byte_of_def)

text \<open>
  Admission order is buffer order: under the key-based strategy two successful calls of
  \<open>Enqueue\<close> with one key send to the same worker, and the second item stands behind the
  first in that buffer. The worker receives from the head of its buffer (\<open>recv_head\<close>), so
  it dequeues the tasks of one key in the order of their admission.
\<close>

lemma admit_KeyBased:
  assumes "strategy p = KeyBased" and "admit L k f options p e = (Ok (i, item), p1, e1)"
  shows "p1 = p \<and> i = uint (Sum32 L k) smod size_p p \<and> key item = k \<and> fn item = f"
  using assms
  by (auto simp: admit_def to_def go_rem_def KeyBased_def RoundRobin_def Let_def case_prod_beta
        split: if_splits option.splits)

lemma deliver_frame:
  assumes "deliver i item p = (Ok j, p1)"
  shows "strategy p1 = strategy p \<and> size_p p1 = size_p p \<and> isRunning p1 = isRunning p
         \<and> length (workers p1) = length (workers p)"
  using assms
  by (auto simp: deliver_def send_def Let_def split: if_splits outcome.splits)

lemma Enqueue_Ok:
  assumes "Enqueue L k f options p e = (Ok i, p2, e2)"
  shows "\<exists>item p1. admit L k f options p e = (Ok (i, item), p1, e2) \<and> deliver i item p1 = (Ok i, p2)"
proof -
  obtain r p1 e1 where ad: "admit L k f options p e = (r, p1, e1)"
    by (cases "admit L k f options p e") auto
  from assms ad obtain wi item where r: "r = Ok (wi, item)"
    by (cases r) (auto simp: Enqueue_def)
  from assms ad r have dl: "deliver wi item p1 = (Ok i, p2)" and e: "e1 = e2"
    by (auto simp: Enqueue_def case_prod_beta intro: prod_eqI)
  from deliver_appends [OF dl] have "wi = i" by simp
  then show ?thesis using ad r dl e by auto
qed

lemma same_key_same_buffer:
  assumes "strategy p = KeyBased"
    and "Enqueue L k f options p e = (Ok i, p1, e1)"
    and "Enqueue L k f' options' p1 e' = (Ok j, p2, e2)"
  shows "j = i
       \<and> (\<exists>item item'. fn item = f \<and> fn item' = f' \<and> key item = k \<and> key item' = k
            \<and> buf (queue (workers p2 ! nat i))
                = buf (queue (workers p ! nat i)) @ [item, item'])"
proof -
  obtain item q where a1: "admit L k f options p e = (Ok (i, item), q, e1)"
    and d1: "deliver i item q = (Ok i, p1)"
    using Enqueue_Ok [OF assms(2)] by blast
  have q: "q = p" and i: "i = uint (Sum32 L k) smod size_p p"
    and it: "key item = k" "fn item = f"
    using admit_KeyBased [OF assms(1) a1] by simp_all
  have s1: "strategy p1 = KeyBased" "size_p p1 = size_p p"
    using deliver_frame [OF d1] assms(1) q by simp_all
  obtain item' q' where a2: "admit L k f' options' p1 e' = (Ok (j, item'), q', e2)"
    and d2: "deliver j item' q' = (Ok j, p2)"
    using Enqueue_Ok [OF assms(3)] by blast
  have q': "q' = p1" and j: "j = uint (Sum32 L k) smod size_p p1"
    and it': "key item' = k" "fn item' = f'"
    using admit_KeyBased [OF s1(1) a2] by simp_all
  have ji: "j = i" using i j s1(2) by simp
  have b1: "buf (queue (workers p1 ! nat i)) = buf (queue (workers p ! nat i)) @ [item]"
    using deliver_appends [OF d1] q by simp
  have b2: "buf (queue (workers p2 ! nat i)) = buf (queue (workers p1 ! nat i)) @ [item']"
    using deliver_appends [OF d2] q' ji by simp
  show ?thesis using ji it it' b1 b2 by auto
qed

text \<open>
  Claim C1 fails on the code. The order of dequeue is not the order of invocation for a
  task with a context, which runs on a goroutine of its own that the worker does not wait
  for once the context is done. In \<open>overtaking_schedule\<close> two tasks of key \<open>a\<close> are
  admitted at times 1000 and 1001 and go to worker 0. The first has a cancellation handle,
  so the worker starts a goroutine for it; the handle fires before the goroutine runs; the
  worker takes the cancellation case and runs the second task; the unit of work of the
  first task is invoked after that of the second.
\<close>

theorem same_key_overtaking:
  "map_option returned (run go_lib overtaking_schedule (boot (fst (NewPool 2 100 KeyBased)) env0))
     = Some [Ok 0, Ok 0]
   \<and> map_option (events \<circ> world)
        (run go_lib overtaking_schedule (boot (fst (NewPool 2 100 KeyBased)) env0))
     = Some [Invoked 0 (task_of ''a'' ok_work (Some Background) 1001),
             Invoked 0 (task_of ''a'' ok_work (Some ctx0) 1000)]"
  by (simp add: overtaking_schedule_def env0_def no_opts_def ctx0_def task_of_def ok_work_def
        engine_defs murmur3_Sum32_def fmix32_def mix_k_def rotl32_def byte_of_def)

end
